theory Spec2Isabelle
  imports Complex_Main "HOL-Library.AList"
begin

unbundle bit_operations_syntax

section \<open>Errors and stat results of the host file system\<close>

text \<open>
  An error object of the host: its \<open>code\<close> property (absent on errors that carry none)
  and its message. A completion callback receives \<open>error option\<close>: \<open>None\<close> stands for
  a falsy first argument (\<open>null\<close> or \<open>undefined\<close>).
\<close>

record error =
  code :: "string option"
  message :: string

text \<open>
  A stats object. Only \<open>uid\<close> and \<open>gid\<close> are touched by the patches; every other field
  lives in the extension part of the record. Identifiers are JavaScript numbers holding
  integers (far below \<open>2 ^ 53\<close>, so the addition of \<open>2 ^ 32\<close> is exact).
\<close>

record stats =
  uid :: int
  gid :: int

section \<open>Metadata patches of \<open>patchFs\<close> (src/lib/fs/gracefull-fs.mjs)\<close>

subsection \<open>\<open>isIgnorableChownErr\<close>, \<open>chownFix\<close>, \<open>chmodFix\<close> and their Sync variants\<close>

text \<open>
  \<open>process.getuid\<close> is a parameter: \<open>None\<close> when the platform has no such function,
  otherwise the user id it returns.
\<close>

definition isIgnorableChownErr :: "nat option \<Rightarrow> error option \<Rightarrow> bool" where
  "isIgnorableChownErr getuid err =
     (case err of
        None \<Rightarrow> True
      | Some e \<Rightarrow>
          if code e = Some ''ENOSYS'' then True
          else if getuid = None \<or> getuid \<noteq> Some 0
            then code e = Some ''EPERM'' \<or> code e = Some ''EINVAL''
          else False)"

text \<open>
  An asynchronous original is modelled by the pair \<open>(err, rest)\<close> it hands to its
  completion callback; the patched function is modelled by the pair the caller's callback
  receives. \<open>orig && function ...\<close> keeps a missing original missing.
\<close>

definition chownFix ::
  "nat option \<Rightarrow> ('t \<Rightarrow> 'u \<Rightarrow> 'g \<Rightarrow> error option \<times> 'r) option
     \<Rightarrow> ('t \<Rightarrow> 'u \<Rightarrow> 'g \<Rightarrow> error option \<times> 'r) option" where
  "chownFix getuid orig =
     (case orig of
        None \<Rightarrow> None
      | Some f \<Rightarrow> Some (\<lambda>target uid gid.
          case f target uid gid of
            (err, rest) \<Rightarrow> (if isIgnorableChownErr getuid err then None else err, rest)))"

definition chmodFix ::
  "nat option \<Rightarrow> ('t \<Rightarrow> 'm \<Rightarrow> error option \<times> 'r) option
     \<Rightarrow> ('t \<Rightarrow> 'm \<Rightarrow> error option \<times> 'r) option" where
  "chmodFix getuid orig =
     (case orig of
        None \<Rightarrow> None
      | Some f \<Rightarrow> Some (\<lambda>target mode.
          case f target mode of
            (err, rest) \<Rightarrow> (if isIgnorableChownErr getuid err then None else err, rest)))"

text \<open>
  A synchronous original either throws (\<open>Inl\<close>) or returns (\<open>Inr\<close>, with \<open>None\<close> for
  \<open>undefined\<close>). The patched function returns \<open>undefined\<close> when it swallows the exception.
\<close>

definition chownFixSync ::
  "nat option \<Rightarrow> ('t \<Rightarrow> 'u \<Rightarrow> 'g \<Rightarrow> error + 'r option) option
     \<Rightarrow> ('t \<Rightarrow> 'u \<Rightarrow> 'g \<Rightarrow> error + 'r option) option" where
  "chownFixSync getuid orig =
     (case orig of
        None \<Rightarrow> None
      | Some f \<Rightarrow> Some (\<lambda>target uid gid.
          case f target uid gid of
            Inr r \<Rightarrow> Inr r
          | Inl err \<Rightarrow> if \<not> isIgnorableChownErr getuid (Some err) then Inl err else Inr None))"

definition chmodFixSync ::
  "nat option \<Rightarrow> ('t \<Rightarrow> 'm \<Rightarrow> error + 'r option) option
     \<Rightarrow> ('t \<Rightarrow> 'm \<Rightarrow> error + 'r option) option" where
  "chmodFixSync getuid orig =
     (case orig of
        None \<Rightarrow> None
      | Some f \<Rightarrow> Some (\<lambda>target mode.
          case f target mode of
            Inr r \<Rightarrow> Inr r
          | Inl err \<Rightarrow> if \<not> isIgnorableChownErr getuid (Some err) then Inl err else Inr None))"

subsection \<open>\<open>statFix\<close> and \<open>statFixSync\<close>\<close>

text \<open>
  The second argument of an asynchronous stat call is either an options value, the
  callback itself (\<open>typeof options === 'function'\<close>, in which case the original is called
  with \<open>undefined\<close> options), or absent.
\<close>

datatype 'o stat_arg = Options 'o | Callback | Absent

definition statFix ::
  "('t \<Rightarrow> 'o stat_arg \<Rightarrow> error option \<times> 'a stats_scheme option) option
     \<Rightarrow> ('t \<Rightarrow> 'o stat_arg \<Rightarrow> error option \<times> 'a stats_scheme option) option" where
  "statFix orig =
     (case orig of
        None \<Rightarrow> None
      | Some f \<Rightarrow> Some (\<lambda>target options.
          let options = (case options of Callback \<Rightarrow> Absent | _ \<Rightarrow> options)
          in case f target options of
               (err, None) \<Rightarrow> (err, None)
             | (err, Some st) \<Rightarrow>
                 let st = (if uid st < 0 then st\<lparr>uid := uid st + 2 ^ 32\<rparr> else st);
                     st = (if gid st < 0 then st\<lparr>gid := gid st + 2 ^ 32\<rparr> else st)
                 in (err, Some st)))"

definition statFixSync ::
  "('t \<Rightarrow> 'o \<Rightarrow> error + 'a stats_scheme option) option
     \<Rightarrow> ('t \<Rightarrow> 'o \<Rightarrow> error + 'a stats_scheme option) option" where
  "statFixSync orig =
     (case orig of
        None \<Rightarrow> None
      | Some f \<Rightarrow> Some (\<lambda>target options.
          case f target options of
            Inl err \<Rightarrow> Inl err
          | Inr None \<Rightarrow> Inr None
          | Inr (Some st) \<Rightarrow>
              let st = (if uid st < 0 then st\<lparr>uid := uid st + 2 ^ 32\<rparr> else st);
                  st = (if gid st < 0 then st\<lparr>gid := gid st + 2 ^ 32\<rparr> else st)
              in Inr (Some st)))"

subsection \<open>The assignments of \<open>patchFs\<close> to the metadata operations\<close>

text \<open>
  The fields of the module that lines 214 to 243 of \<open>patchFs\<close> assign, and those
  assignments in the order of the source. The legacy \<open>lchmod\<close> and \<open>lutimes\<close> polyfills
  above them and the retry, rename and read patches are not part of this record.
\<close>

record ('t, 'u, 'g, 'm, 'o, 'r, 'a) fs_module =
  chown :: "('t \<Rightarrow> 'u \<Rightarrow> 'g \<Rightarrow> error option \<times> 'r option) option"
  fchown :: "('t \<Rightarrow> 'u \<Rightarrow> 'g \<Rightarrow> error option \<times> 'r option) option"
  lchown :: "('t \<Rightarrow> 'u \<Rightarrow> 'g \<Rightarrow> error option \<times> 'r option) option"
  chmod :: "('t \<Rightarrow> 'm \<Rightarrow> error option \<times> 'r option) option"
  fchmod :: "('t \<Rightarrow> 'm \<Rightarrow> error option \<times> 'r option) option"
  lchmod :: "('t \<Rightarrow> 'm \<Rightarrow> error option \<times> 'r option) option"
  chownSync :: "('t \<Rightarrow> 'u \<Rightarrow> 'g \<Rightarrow> error + 'r option) option"
  fchownSync :: "('t \<Rightarrow> 'u \<Rightarrow> 'g \<Rightarrow> error + 'r option) option"
  lchownSync :: "('t \<Rightarrow> 'u \<Rightarrow> 'g \<Rightarrow> error + 'r option) option"
  chmodSync :: "('t \<Rightarrow> 'm \<Rightarrow> error + 'r option) option"
  fchmodSync :: "('t \<Rightarrow> 'm \<Rightarrow> error + 'r option) option"
  lchmodSync :: "('t \<Rightarrow> 'm \<Rightarrow> error + 'r option) option"
  stat :: "('t \<Rightarrow> 'o stat_arg \<Rightarrow> error option \<times> 'a stats_scheme option) option"
  fstat :: "('t \<Rightarrow> 'o stat_arg \<Rightarrow> error option \<times> 'a stats_scheme option) option"
  lstat :: "('t \<Rightarrow> 'o stat_arg \<Rightarrow> error option \<times> 'a stats_scheme option) option"
  statSync :: "('t \<Rightarrow> 'o \<Rightarrow> error + 'a stats_scheme option) option"
  fstatSync :: "('t \<Rightarrow> 'o \<Rightarrow> error + 'a stats_scheme option) option"
  lstatSync :: "('t \<Rightarrow> 'o \<Rightarrow> error + 'a stats_scheme option) option"

text \<open>
  An assignment \<open>fs.chown = chownFix(fs.chown)\<close> is the record update
  \<open>chown_update (chownFix getuid) fs\<close>, which applies the patch to the field.
\<close>

definition patchFs ::
  "nat option \<Rightarrow> ('t, 'u, 'g, 'm, 'o, 'r, 'a) fs_module \<Rightarrow> ('t, 'u, 'g, 'm, 'o, 'r, 'a) fs_module" where
  "patchFs getuid fs =
     (let fs = chown_update (chownFix getuid) fs;
          fs = fchown_update (chownFix getuid) fs;
          fs = lchown_update (chownFix getuid) fs;
          fs = chmod_update (chmodFix getuid) fs;
          fs = fchmod_update (chmodFix getuid) fs;
          fs = lchmod_update (chmodFix getuid) fs;
          fs = chownSync_update (chownFixSync getuid) fs;
          fs = fchownSync_update (chownFixSync getuid) fs;
          fs = lchownSync_update (chownFixSync getuid) fs;
          fs = chmodSync_update (chmodFixSync getuid) fs;
          fs = fchmodSync_update (chmodFixSync getuid) fs;
          fs = lchmodSync_update (chmodFixSync getuid) fs;
          fs = stat_update statFix fs;
          fs = fstat_update statFix fs;
          fs = lstat_update statFix fs;
          fs = statSync_update statFixSync fs;
          fs = fstatSync_update statFixSync fs;
          fs = lstatSync_update statFixSync fs;
          fs = (if chmod fs \<noteq> None \<and> lchmod fs = None
                then fs\<lparr>lchmod := Some (\<lambda>p m. (None, None)),
                        lchmodSync := Some (\<lambda>p m. Inr None)\<rparr>
                else fs);
          fs = (if chown fs \<noteq> None \<and> lchown fs = None
                then fs\<lparr>lchown := Some (\<lambda>p u g. (None, None)),
                        lchownSync := Some (\<lambda>p u g. Inr None)\<rparr>
                else fs)
      in fs)"

section \<open>The retry queue (src/lib/fs/gracefull-fs.mjs, lines 14 to 100)\<close>

subsection \<open>JavaScript values and numbers\<close>

text \<open>
  Numbers are modelled exactly: a finite number is a rational, so that the factor \<open>1.2\<close>
  is \<open>6/5\<close>; \<open>NaN\<close> and the two infinities behave as in the language. Clock readings are
  integers, and the queue only subtracts, scales and compares them: on integers the
  rounding of the product with \<open>1.2\<close> does not change the outcome of a comparison.
\<close>

datatype jsnum = NaN | NegInf | Fin rat | PosInf

fun js_sub :: "jsnum \<Rightarrow> jsnum \<Rightarrow> jsnum" where
  "js_sub NaN y = NaN"
| "js_sub x NaN = NaN"
| "js_sub (Fin a) (Fin b) = Fin (a - b)"
| "js_sub (Fin a) PosInf = NegInf"
| "js_sub (Fin a) NegInf = PosInf"
| "js_sub PosInf PosInf = NaN"
| "js_sub PosInf y = PosInf"
| "js_sub NegInf NegInf = NaN"
| "js_sub NegInf y = NegInf"

fun js_mul :: "jsnum \<Rightarrow> jsnum \<Rightarrow> jsnum" where
  "js_mul NaN y = NaN"
| "js_mul x NaN = NaN"
| "js_mul (Fin a) (Fin b) = Fin (a * b)"
| "js_mul (Fin a) PosInf = (if a = 0 then NaN else if 0 < a then PosInf else NegInf)"
| "js_mul (Fin a) NegInf = (if a = 0 then NaN else if 0 < a then NegInf else PosInf)"
| "js_mul PosInf (Fin b) = (if b = 0 then NaN else if 0 < b then PosInf else NegInf)"
| "js_mul NegInf (Fin b) = (if b = 0 then NaN else if 0 < b then NegInf else PosInf)"
| "js_mul PosInf PosInf = PosInf"
| "js_mul PosInf NegInf = NegInf"
| "js_mul NegInf PosInf = NegInf"
| "js_mul NegInf NegInf = PosInf"

fun Math_max :: "jsnum \<Rightarrow> jsnum \<Rightarrow> jsnum" where
  "Math_max NaN y = NaN"
| "Math_max x NaN = NaN"
| "Math_max PosInf y = PosInf"
| "Math_max x PosInf = PosInf"
| "Math_max NegInf y = y"
| "Math_max x NegInf = x"
| "Math_max (Fin a) (Fin b) = Fin (max a b)"

fun Math_min :: "jsnum \<Rightarrow> jsnum \<Rightarrow> jsnum" where
  "Math_min NaN y = NaN"
| "Math_min x NaN = NaN"
| "Math_min NegInf y = NegInf"
| "Math_min x NegInf = NegInf"
| "Math_min PosInf y = y"
| "Math_min x PosInf = x"
| "Math_min (Fin a) (Fin b) = Fin (min a b)"

text \<open>The comparison \<open>x >= y\<close>: false as soon as one side is \<open>NaN\<close>.\<close>

fun js_ge :: "jsnum \<Rightarrow> jsnum \<Rightarrow> bool" where
  "js_ge NaN y = False"
| "js_ge x NaN = False"
| "js_ge PosInf y = True"
| "js_ge x NegInf = True"
| "js_ge (Fin a) (Fin b) = (b \<le> a)"
| "js_ge (Fin a) PosInf = False"
| "js_ge NegInf y = False"

text \<open>
  The values a wrapped call can carry: \<open>undefined\<close>, numbers (a file descriptor, a clock
  reading), functions (by identity) and strings, which also stand for the objects that
  coerce through their string form (buffers, URLs). How a string reads as a number is the
  language's \<open>StringToNumber\<close>; it is a parameter \<open>s2n\<close> of the model.
\<close>

datatype jsval = Undefined | Number jsnum | Function nat | String string

fun ToNumber :: "(string \<Rightarrow> jsnum) \<Rightarrow> jsval \<Rightarrow> jsnum" where
  "ToNumber s2n Undefined = NaN"
| "ToNumber s2n (Number n) = n"
| "ToNumber s2n (Function f) = NaN"
| "ToNumber s2n (String s) = s2n s"

fun is_function :: "jsval \<Rightarrow> bool" where
  "is_function (Function f) = True"
| "is_function v = False"

subsection \<open>State\<close>

text \<open>
  A queue entry is the five-element array \<open>[fn, args, err, startTime, lastTime]\<close>. Its
  \<open>fn\<close> is always an \<open>attempt\<close> closure of \<open>wrapWithRetry\<close>, identified by the number
  of the wrapped call that created it.
\<close>

record entry =
  fn :: nat
  args :: "jsval list"
  err :: error
  startTime :: jsval
  lastTime :: jsval

text \<open>One invocation of a caller's completion callback, as the caller observes it.\<close>

record completion =
  by_call :: nat
  callee :: jsval
  cb_err :: "error option"
  cb_results :: "jsval list"

text \<open>
  Where the timer callback of \<open>scheduleRetry\<close> stands: not running, inside
  \<open>for await (const _ of retryQueue())\<close>, or between the end of that loop and
  \<open>if (queue.length) scheduleRetry()\<close>.
\<close>

datatype phase = Idle | Draining | Finishing

text \<open>
  The module state: \<open>queue\<close> and \<open>retryTimer\<close> are the variables of the source;
  \<open>closures\<close> holds, per wrapped call, what its \<open>attempt\<close> closure captured (\<open>args\<close>
  after the callback was popped, and \<open>cb\<close>); \<open>pending\<close> holds the underlying
  operations that were issued and have not completed, each with the \<open>startTime\<close> its
  attempt was entered with; \<open>invoked\<close> is the trace of callback invocations; \<open>clock\<close>
  is what \<open>Date.now()\<close> returns.
\<close>

record state =
  queue :: "entry list"
  retryTimer :: bool
  phase :: phase
  closures :: "(jsval list \<times> jsval) list"
  pending :: "(nat \<times> jsval) list"
  invoked :: "completion list"
  clock :: int

definition init :: state where
  "init = \<lparr>queue = [], retryTimer = False, phase = Idle, closures = [], pending = [],
           invoked = [], clock = 0\<rparr>"

definition Date_now :: "state \<Rightarrow> jsval" where
  "Date_now s = Number (Fin (of_int (clock s)))"

subsection \<open>\<open>scheduleRetry\<close>, \<open>enqueue\<close>, \<open>resetQueue\<close>\<close>

text \<open>Every entry has five elements, so \<open>job.length > 2\<close> holds of each in \<open>resetQueue\<close>.\<close>

definition scheduleRetry :: "state \<Rightarrow> state" where
  "scheduleRetry s = (if retryTimer s then s else s\<lparr>retryTimer := True\<rparr>)"

definition enqueue :: "entry \<Rightarrow> state \<Rightarrow> state" where
  "enqueue e s = scheduleRetry (s\<lparr>queue := queue s @ [e]\<rparr>)"

definition resetQueue :: "state \<Rightarrow> state" where
  "resetQueue s =
     (let now = Date_now s
      in scheduleRetry
           (s\<lparr>queue := map (\<lambda>job. job\<lparr>startTime := now, lastTime := now\<rparr>) (queue s)\<rparr>))"

subsection \<open>\<open>wrapWithRetry\<close> and its \<open>attempt\<close> closure\<close>

text \<open>
  \<open>attempt k argv\<close> is a call of the closure of wrapped call \<open>k\<close> with the argument
  list \<open>argv\<close>. The closure has one parameter, \<open>startTime = Date.now()\<close>: it is bound to
  the first argument, and the default applies when that is missing or \<open>undefined\<close>. The
  call issues the underlying operation, which completes later.
\<close>

definition attempt :: "nat \<Rightarrow> jsval list \<Rightarrow> state \<Rightarrow> state" where
  "attempt k argv s =
     (let startTime' = (case argv of [] \<Rightarrow> Date_now s
                        | a # _ \<Rightarrow> if a = Undefined then Date_now s else a)
      in s\<lparr>pending := pending s @ [(k, startTime')]\<rparr>)"

definition is_exhaustion :: "error \<Rightarrow> bool" where
  "is_exhaustion e \<longleftrightarrow> code e = Some ''EMFILE'' \<or> code e = Some ''ENFILE''"

text \<open>
  The callback that \<open>attempt\<close> hands to the underlying operation, called with
  \<open>(err, ...results)\<close>.
\<close>

definition attempt_callback ::
  "nat \<Rightarrow> jsval \<Rightarrow> error option \<Rightarrow> jsval list \<Rightarrow> state \<Rightarrow> state" where
  "attempt_callback k startTime' e results s =
     (case closures s ! k of (cargs, cb) \<Rightarrow>
        (case e of
           Some x \<Rightarrow>
             if is_exhaustion x
             then enqueue \<lparr>fn = k, args = cargs @ [cb], err = x, startTime = startTime',
                           lastTime = Date_now s\<rparr> s
             else if cb = Undefined then s
             else s\<lparr>invoked := invoked s @
                     [\<lparr>by_call = k, callee = cb, cb_err = e, cb_results = results\<rparr>]\<rparr>
         | None \<Rightarrow>
             if cb = Undefined then s
             else s\<lparr>invoked := invoked s @
                     [\<lparr>by_call = k, callee = cb, cb_err = e, cb_results = results\<rparr>]\<rparr>))"

text \<open>A call \<open>wrapped(...argv)\<close> of the function returned by \<open>wrapWithRetry(fn)\<close>.\<close>

definition wrapWithRetry :: "jsval list \<Rightarrow> state \<Rightarrow> state" where
  "wrapWithRetry argv s =
     (let has_cb = (argv \<noteq> [] \<and> is_function (last argv));
          cb = (if has_cb then last argv else Undefined);
          cargs = (if has_cb then butlast argv else argv);
          k = length (closures s)
      in attempt k [] (s\<lparr>closures := closures s @ [(cargs, cb)]\<rparr>))"

subsection \<open>\<open>retryQueue\<close>: one iteration of the loop\<close>

text \<open>
  \<open>retryQueue_step\<close> is one evaluation of \<open>while (queue.length)\<close> and, when the queue is
  not empty, of the loop body. With an empty queue the generator returns and the timer
  callback moves on. The generator yields only in the retry branch; after a deferral or an
  abandonment the next iteration follows at once. \<open>delay\<close> is the backoff threshold of
  lines 64 and 65, \<open>Math.min(Math.max(lastTime - startTime, 1) * 1.2, 100)\<close>.
\<close>

definition delay :: "(string \<Rightarrow> jsnum) \<Rightarrow> jsval \<Rightarrow> jsval \<Rightarrow> jsnum" where
  "delay s2n startTime' lastTime' =
     (let sinceStart = Math_max (js_sub (ToNumber s2n lastTime') (ToNumber s2n startTime')) (Fin 1)
      in Math_min (js_mul sinceStart (Fin (6 / 5))) (Fin 100))"

definition retryQueue_step :: "(string \<Rightarrow> jsnum) \<Rightarrow> state \<Rightarrow> state" where
  "retryQueue_step s2n s =
     (case queue s of
        [] \<Rightarrow> s\<lparr>phase := Finishing\<rparr>
      | e # rest \<Rightarrow>
          let s = s\<lparr>queue := rest\<rparr>;
              startTime' = (if startTime e = Undefined then Date_now s else startTime e);
              lastTime' = (if lastTime e = Undefined then Date_now s else lastTime e);
              now = Date_now s;
              sinceAttempt = js_sub (ToNumber s2n now) (ToNumber s2n lastTime')
          in if js_ge (js_sub (ToNumber s2n now) (ToNumber s2n startTime')) (Fin 60000) then
               (let cb = (if args e = [] then Undefined else last (args e))
                in if is_function cb
                   then s\<lparr>invoked := invoked s @
                           [\<lparr>by_call = fn e, callee = cb, cb_err = Some (err e), cb_results = []\<rparr>]\<rparr>
                   else s)
             else if js_ge sinceAttempt (delay s2n startTime' lastTime')
               then attempt (fn e) (args e @ [startTime']) s
             else s\<lparr>queue := queue s @
                     [\<lparr>fn = fn e, args = args e, err = err e, startTime = startTime',
                       lastTime = now\<rparr>]\<rparr>)"

text \<open>The statement after the loop: \<open>if (queue.length) scheduleRetry()\<close>.\<close>

definition after_loop :: "state \<Rightarrow> state" where
  "after_loop s = (let s = s\<lparr>phase := Idle\<rparr> in if queue s \<noteq> [] then scheduleRetry s else s)"

subsection \<open>The event loop\<close>

text \<open>
  What can happen next: time passes; a caller calls a wrapped function; an underlying
  operation completes, with the arguments it gives its callback; the timer of
  \<open>scheduleRetry\<close> fires; the drain loop runs one iteration; the timer callback finishes;
  the operator calls \<open>resetQueue\<close>. The timer fires only when it is set and no drain pass
  is running; an operation completes only if it is pending, and exactly once (the
  convention that the wrapped operation has to follow). The clock never goes back. Calls
  and completions are not tied to the end of a pass: the host delivers completions between
  tasks only, so some interleavings of the model cannot happen there. An operation that
  returns a promise, which \<open>yield\<close> would await, is not modelled.
\<close>

datatype event =
    Tick nat
  | Call "jsval list"
  | Done nat "error option" "jsval list"
  | Timer
  | Iterate
  | After
  | Reset

fun remove_pending :: "nat \<Rightarrow> (nat \<times> jsval) list \<Rightarrow> (nat \<times> jsval) list" where
  "remove_pending k [] = []"
| "remove_pending k (p # ps) = (if fst p = k then ps else p # remove_pending k ps)"

definition step :: "(string \<Rightarrow> jsnum) \<Rightarrow> event \<Rightarrow> state \<Rightarrow> state option" where
  "step s2n ev s =
     (case ev of
        Tick d \<Rightarrow> Some (s\<lparr>clock := clock s + int d\<rparr>)
      | Call argv \<Rightarrow> Some (wrapWithRetry argv s)
      | Done k e results \<Rightarrow>
          (case map_of (pending s) k of
             None \<Rightarrow> None
           | Some st \<Rightarrow>
               if k < length (closures s)
               then Some (attempt_callback k st e results
                            (s\<lparr>pending := remove_pending k (pending s)\<rparr>))
               else None)
      | Timer \<Rightarrow>
          if retryTimer s \<and> phase s = Idle
          then Some (s\<lparr>retryTimer := False, phase := Draining\<rparr>)
          else None
      | Iterate \<Rightarrow> if phase s = Draining then Some (retryQueue_step s2n s) else None
      | After \<Rightarrow> if phase s = Finishing then Some (after_loop s) else None
      | Reset \<Rightarrow> Some (resetQueue s))"

fun run :: "(string \<Rightarrow> jsnum) \<Rightarrow> event list \<Rightarrow> state \<Rightarrow> state option" where
  "run s2n [] s = Some s"
| "run s2n (ev # evs) s = (case step s2n ev s of None \<Rightarrow> None | Some s' \<Rightarrow> run s2n evs s')"

section \<open>The copy engine (src/unnamed/part_000)\<close>

subsection \<open>A model of the file system\<close>

text \<open>
  A path is its list of components; the empty list is the root. A file system is a list of
  nodes by path, in the order in which a directory lists them, together with the journal
  of the mutating calls that were issued to it. A path names its node directly: symbolic
  links are followed in the last component only (by \<open>statSync\<close>, \<open>copyFileSync\<close>,
  \<open>chmodSync\<close> and the timestamp helper), never in a parent directory.
\<close>

type_synonym path = "string list"

datatype kind =
  RegularFile | CharacterDevice | BlockDevice | Directory | SymbolicLink | Socket | FIFO | Unknown

record inode =
  kind :: kind
  mode :: nat
  content :: "nat list"
  link :: string
  atime :: int
  mtime :: int

datatype fs_write =
    Unlink path
  | CopyFile path path
  | Chmod path nat
  | Utimes path int int
  | Mkdir path
  | Symlink string path

record fsys =
  nodes :: "(path \<times> inode) list"
  journal :: "fs_write list"

text \<open>
  The errors of the engine are the six \<open>throw new Error(...)\<close> of the source, named as in
  the specification, and the errors of the host with their code.
\<close>

datatype copy_error =
    AlreadyExists path
  | SelfCopy string string
  | OverwriteConflict string string
  | SocketFile path
  | FIFOPipe path
  | UnknownFile path
  | OsError string path

record opts =
  clobber :: "bool option"
  overwrite :: "bool option"
  errorOnExist :: bool
  preserveTimestamps :: bool
  dereference :: bool
  filter' :: "(path \<Rightarrow> path \<Rightarrow> bool) option"

text \<open>
  What the engine takes from outside this file. \<open>checkPathsSync\<close>,
  \<open>checkParentPathsSync\<close> and \<open>isSrcSubdir\<close> are the path-containment collaborators of
  \<open>../util/stat.js\<close>, which only read the file system; \<open>resolve_cwd t\<close> is
  \<open>path.resolve(process.cwd(), t)\<close>; \<open>follow p t\<close> is the path of the node that a link
  at \<open>p\<close> with target text \<open>t\<close> points to; \<open>time_now\<close> is the time the host stamps on
  what the copy writes.
\<close>

record env =
  checkPathsSync :: "path \<Rightarrow> path \<Rightarrow> opts \<Rightarrow> fsys \<Rightarrow> copy_error + (inode \<times> inode option)"
  checkParentPathsSync :: "path \<Rightarrow> inode \<Rightarrow> path \<Rightarrow> fsys \<Rightarrow> copy_error + unit"
  isSrcSubdir :: "string \<Rightarrow> string \<Rightarrow> bool"
  resolve_cwd :: "string \<Rightarrow> string"
  follow :: "path \<Rightarrow> string \<Rightarrow> path"
  time_now :: int

type_synonym 'a fs_result = "(copy_error + 'a) \<times> fsys"

definition fs_return :: "'a \<Rightarrow> fsys \<Rightarrow> 'a fs_result" where
  "fs_return x fs = (Inr x, fs)"

definition fs_throw :: "copy_error \<Rightarrow> fsys \<Rightarrow> 'a fs_result" where
  "fs_throw e fs = (Inl e, fs)"

definition fs_bind ::
  "(fsys \<Rightarrow> 'a fs_result) \<Rightarrow> ('a \<Rightarrow> fsys \<Rightarrow> 'b fs_result) \<Rightarrow> fsys \<Rightarrow> 'b fs_result" where
  "fs_bind m f fs = (case m fs of (Inl e, fs') \<Rightarrow> (Inl e, fs') | (Inr x, fs') \<Rightarrow> f x fs')"

definition root :: inode where
  "root = \<lparr>kind = Directory, mode = 493, content = [], link = [], atime = 0, mtime = 0\<rparr>"

definition node :: "fsys \<Rightarrow> path \<Rightarrow> inode option" where
  "node fs p = (if p = [] then Some root else map_of (nodes fs) p)"

definition has_parent :: "fsys \<Rightarrow> path \<Rightarrow> bool" where
  "has_parent fs p \<longleftrightarrow>
     p \<noteq> [] \<and> (case node fs (butlast p) of Some i \<Rightarrow> kind i = Directory | None \<Rightarrow> False)"

definition issue :: "fs_write \<Rightarrow> fsys \<Rightarrow> fsys" where
  "issue w fs = fs\<lparr>journal := journal fs @ [w]\<rparr>"

definition put :: "path \<Rightarrow> inode \<Rightarrow> fsys \<Rightarrow> fsys" where
  "put p i fs = fs\<lparr>nodes := AList.update p i (nodes fs)\<rparr>"

text \<open>Following the links in the last component, at most \<open>n + 1\<close> of them.\<close>

fun realpath :: "nat \<Rightarrow> env \<Rightarrow> fsys \<Rightarrow> path \<Rightarrow> path option" where
  "realpath 0 env fs p =
     (case node fs p of
        Some i \<Rightarrow> if kind i = SymbolicLink then None else Some p
      | None \<Rightarrow> Some p)"
| "realpath (Suc n) env fs p =
     (case node fs p of
        Some i \<Rightarrow> if kind i = SymbolicLink then realpath n env fs (follow env p (link i)) else Some p
      | None \<Rightarrow> Some p)"

definition lstatSync :: "path \<Rightarrow> fsys \<Rightarrow> copy_error + inode" where
  "lstatSync p fs = (case node fs p of None \<Rightarrow> Inl (OsError ''ENOENT'' p) | Some i \<Rightarrow> Inr i)"

definition statSync :: "env \<Rightarrow> path \<Rightarrow> fsys \<Rightarrow> copy_error + inode" where
  "statSync env p fs =
     (case realpath 40 env fs p of
        None \<Rightarrow> Inl (OsError ''ELOOP'' p)
      | Some q \<Rightarrow> (case node fs q of None \<Rightarrow> Inl (OsError ''ENOENT'' p) | Some i \<Rightarrow> Inr i))"

definition existsSync :: "env \<Rightarrow> path \<Rightarrow> fsys \<Rightarrow> bool" where
  "existsSync env p fs = (case statSync env p fs of Inl e \<Rightarrow> False | Inr i \<Rightarrow> True)"

definition readlinkSync :: "path \<Rightarrow> fsys \<Rightarrow> copy_error + string" where
  "readlinkSync p fs =
     (case node fs p of
        None \<Rightarrow> Inl (OsError ''ENOENT'' p)
      | Some i \<Rightarrow> if kind i = SymbolicLink then Inr (link i) else Inl (OsError ''EINVAL'' p))"

definition unlinkSync :: "path \<Rightarrow> fsys \<Rightarrow> unit fs_result" where
  "unlinkSync p fs0 =
     (let fs = issue (Unlink p) fs0
      in case node fs p of
           None \<Rightarrow> (Inl (OsError ''ENOENT'' p), fs)
         | Some i \<Rightarrow>
             if kind i = Directory then (Inl (OsError ''EISDIR'' p), fs)
             else (Inr (), fs\<lparr>nodes := AList.delete p (nodes fs)\<rparr>))"

definition copyFileSync :: "env \<Rightarrow> path \<Rightarrow> path \<Rightarrow> fsys \<Rightarrow> unit fs_result" where
  "copyFileSync env src dest fs0 =
     (let fs = issue (CopyFile src dest) fs0
      in case statSync env src fs of
           Inl e \<Rightarrow> (Inl e, fs)
         | Inr si \<Rightarrow>
             if kind si = Directory then (Inl (OsError ''EISDIR'' src), fs)
             else (case realpath 40 env fs dest of
                     None \<Rightarrow> (Inl (OsError ''ELOOP'' dest), fs)
                   | Some d \<Rightarrow>
                       (case node fs d of
                          Some di \<Rightarrow>
                            if kind di = Directory then (Inl (OsError ''EISDIR'' dest), fs)
                            else (Inr (), put d (di\<lparr>mode := mode si, content := content si,
                                                   mtime := time_now env\<rparr>) fs)
                        | None \<Rightarrow>
                            if has_parent fs d
                            then (Inr (), put d \<lparr>kind = RegularFile, mode = mode si,
                                                 content = content si, link = [],
                                                 atime = time_now env, mtime = time_now env\<rparr> fs)
                            else (Inl (OsError ''ENOENT'' dest), fs))))"

definition chmodSync :: "env \<Rightarrow> path \<Rightarrow> nat \<Rightarrow> fsys \<Rightarrow> unit fs_result" where
  "chmodSync env p m fs0 =
     (let fs = issue (Chmod p m) fs0
      in case realpath 40 env fs p of
           None \<Rightarrow> (Inl (OsError ''ELOOP'' p), fs)
         | Some q \<Rightarrow>
             (case node fs q of
                None \<Rightarrow> (Inl (OsError ''ENOENT'' p), fs)
              | Some i \<Rightarrow> if q = [] then (Inr (), fs) else (Inr (), put q (i\<lparr>mode := m\<rparr>) fs)))"

definition mkdirSync :: "env \<Rightarrow> path \<Rightarrow> fsys \<Rightarrow> unit fs_result" where
  "mkdirSync env p fs0 =
     (let fs = issue (Mkdir p) fs0
      in if node fs p \<noteq> None then (Inl (OsError ''EEXIST'' p), fs)
         else if \<not> has_parent fs p then (Inl (OsError ''ENOENT'' p), fs)
         else (Inr (), put p \<lparr>kind = Directory, mode = 511, content = [], link = [],
                               atime = time_now env, mtime = time_now env\<rparr> fs))"

definition symlinkSync :: "env \<Rightarrow> string \<Rightarrow> path \<Rightarrow> fsys \<Rightarrow> unit fs_result" where
  "symlinkSync env t p fs0 =
     (let fs = issue (Symlink t p) fs0
      in if node fs p \<noteq> None then (Inl (OsError ''EEXIST'' p), fs)
         else if \<not> has_parent fs p then (Inl (OsError ''ENOENT'' p), fs)
         else (Inr (), put p \<lparr>kind = SymbolicLink, mode = 511, content = [], link = t,
                               atime = time_now env, mtime = time_now env\<rparr> fs))"

text \<open>
  \<open>opendirSync\<close> with the \<open>readSync\<close> loop: the names in the directory, in listing order,
  as they are when the directory is opened.
\<close>

definition opendirSync :: "env \<Rightarrow> path \<Rightarrow> fsys \<Rightarrow> copy_error + string list" where
  "opendirSync env p fs =
     (case realpath 40 env fs p of
        None \<Rightarrow> Inl (OsError ''ELOOP'' p)
      | Some d \<Rightarrow>
          (case node fs d of
             None \<Rightarrow> Inl (OsError ''ENOENT'' p)
           | Some i \<Rightarrow>
               if kind i \<noteq> Directory then Inl (OsError ''ENOTDIR'' p)
               else Inr (map (\<lambda>(q, j). last q)
                          (filter (\<lambda>(q, j). q \<noteq> [] \<and> butlast q = d) (nodes fs)))))"

text \<open>
  Modelled from the spec: \<open>utimesMillisSync\<close> of \<open>../util/utimes.js\<close> is not part of
  the sources; it sets the access and modification time of the destination.
\<close>

definition utimesMillisSync :: "env \<Rightarrow> path \<Rightarrow> int \<Rightarrow> int \<Rightarrow> fsys \<Rightarrow> unit fs_result" where
  "utimesMillisSync env p a m fs0 =
     (let fs = issue (Utimes p a m) fs0
      in case realpath 40 env fs p of
           None \<Rightarrow> (Inl (OsError ''ELOOP'' p), fs)
         | Some q \<Rightarrow>
             (case node fs q of
                None \<Rightarrow> (Inl (OsError ''ENOENT'' p), fs)
              | Some i \<Rightarrow>
                  if q = [] then (Inr (), fs) else (Inr (), put q (i\<lparr>atime := a, mtime := m\<rparr>) fs)))"

text \<open>
  Modelled from the spec: \<open>mkdirsSync\<close> of \<open>../mkdirs.js\<close> is not part of the sources;
  it ensures that the path exists, creating the missing directories from the root down.
\<close>

fun mkdirs_from :: "env \<Rightarrow> path \<Rightarrow> string list \<Rightarrow> fsys \<Rightarrow> unit fs_result" where
  "mkdirs_from env p [] fs = (Inr (), fs)"
| "mkdirs_from env p (c # cs) fs =
     (case node fs (p @ [c]) of
        Some i \<Rightarrow>
          if kind i = Directory then mkdirs_from env (p @ [c]) cs fs
          else (Inl (OsError ''ENOTDIR'' (p @ [c])), fs)
      | None \<Rightarrow>
          (case mkdirSync env (p @ [c]) fs of
             (Inl e, fs') \<Rightarrow> (Inl e, fs')
           | (Inr u, fs') \<Rightarrow> mkdirs_from env (p @ [c]) cs fs'))"

definition mkdirsSync :: "env \<Rightarrow> path \<Rightarrow> fsys \<Rightarrow> unit fs_result" where
  "mkdirsSync env p fs = mkdirs_from env [] p fs"

subsection \<open>Files\<close>

definition fileIsNotWritable :: "nat \<Rightarrow> bool" where
  "fileIsNotWritable srcMode \<longleftrightarrow> srcMode AND 128 = 0"

definition setDestMode :: "env \<Rightarrow> path \<Rightarrow> nat \<Rightarrow> fsys \<Rightarrow> unit fs_result" where
  "setDestMode env dest srcMode = chmodSync env dest srcMode"

definition makeFileWritable :: "env \<Rightarrow> path \<Rightarrow> nat \<Rightarrow> fsys \<Rightarrow> unit fs_result" where
  "makeFileWritable env dest srcMode = setDestMode env dest (srcMode OR 128)"

definition setDestTimestamps :: "env \<Rightarrow> path \<Rightarrow> path \<Rightarrow> fsys \<Rightarrow> unit fs_result" where
  "setDestTimestamps env src dest fs =
     (case statSync env src fs of
        Inl e \<Rightarrow> (Inl e, fs)
      | Inr updatedSrcStat \<Rightarrow>
          utimesMillisSync env dest (atime updatedSrcStat) (mtime updatedSrcStat) fs)"

definition handleTimestamps :: "env \<Rightarrow> nat \<Rightarrow> path \<Rightarrow> path \<Rightarrow> fsys \<Rightarrow> unit fs_result" where
  "handleTimestamps env srcMode src dest =
     fs_bind (if fileIsNotWritable srcMode then makeFileWritable env dest srcMode else fs_return ())
       (\<lambda>u. setDestTimestamps env src dest)"

definition copyFile :: "env \<Rightarrow> inode \<Rightarrow> path \<Rightarrow> path \<Rightarrow> opts \<Rightarrow> fsys \<Rightarrow> unit fs_result" where
  "copyFile env srcStat src dest opts =
     fs_bind (copyFileSync env src dest)
       (\<lambda>u. fs_bind (if preserveTimestamps opts then handleTimestamps env (mode srcStat) src dest
                      else fs_return ())
          (\<lambda>u. setDestMode env dest (mode srcStat)))"

definition mayCopyFile :: "env \<Rightarrow> inode \<Rightarrow> path \<Rightarrow> path \<Rightarrow> opts \<Rightarrow> fsys \<Rightarrow> unit fs_result" where
  "mayCopyFile env srcStat src dest opts =
     (if overwrite opts = Some True
      then fs_bind (unlinkSync dest) (\<lambda>u. copyFile env srcStat src dest opts)
      else if errorOnExist opts then fs_throw (AlreadyExists dest)
      else fs_return ())"

definition onFile ::
  "env \<Rightarrow> inode \<Rightarrow> inode option \<Rightarrow> path \<Rightarrow> path \<Rightarrow> opts \<Rightarrow> fsys \<Rightarrow> unit fs_result" where
  "onFile env srcStat destStat src dest opts =
     (if destStat = None then copyFile env srcStat src dest opts
      else mayCopyFile env srcStat src dest opts)"

subsection \<open>Symbolic links\<close>

definition copyLink :: "env \<Rightarrow> string \<Rightarrow> path \<Rightarrow> fsys \<Rightarrow> unit fs_result" where
  "copyLink env resolvedSrc dest =
     fs_bind (unlinkSync dest) (\<lambda>u. symlinkSync env resolvedSrc dest)"

definition onLink :: "env \<Rightarrow> inode option \<Rightarrow> path \<Rightarrow> path \<Rightarrow> opts \<Rightarrow> fsys \<Rightarrow> unit fs_result" where
  "onLink env destStat src dest opts fs =
     (case readlinkSync src fs of
        Inl e \<Rightarrow> (Inl e, fs)
      | Inr t \<Rightarrow>
          let resolvedSrc = (if dereference opts then resolve_cwd env t else t)
          in if destStat = None then symlinkSync env resolvedSrc dest fs
             else (case readlinkSync dest fs of
                     Inl e \<Rightarrow>
                       (case e of
                          OsError c p \<Rightarrow>
                            if c = ''EINVAL'' \<or> c = ''UNKNOWN''
                            then symlinkSync env resolvedSrc dest fs
                            else (Inl e, fs)
                        | _ \<Rightarrow> (Inl e, fs))
                   | Inr t' \<Rightarrow>
                       let resolvedDest = (if dereference opts then resolve_cwd env t' else t')
                       in if isSrcSubdir env resolvedSrc resolvedDest
                          then (Inl (SelfCopy resolvedSrc resolvedDest), fs)
                          else if isSrcSubdir env resolvedDest resolvedSrc
                          then (Inl (OverwriteConflict resolvedDest resolvedSrc), fs)
                          else copyLink env resolvedSrc dest fs))"

subsection \<open>Directories and the traversal\<close>

text \<open>
  The traversal is recursive through \<open>getStats\<close>. \<open>getStats\<close> takes the number of calls
  of itself that may be nested; \<open>None\<close> means that this number was not enough. The four
  functions between two nested calls of \<open>getStats\<close> take the inner \<open>getStats\<close> as their
  first argument \<open>rec\<close>.
\<close>

type_synonym traversal =
  "inode option \<Rightarrow> path \<Rightarrow> path \<Rightarrow> opts \<Rightarrow> fsys \<Rightarrow> unit fs_result option"

definition copyDirItem ::
  "traversal \<Rightarrow> env \<Rightarrow> string \<Rightarrow> path \<Rightarrow> path \<Rightarrow> opts \<Rightarrow> fsys \<Rightarrow> unit fs_result option" where
  "copyDirItem rec env item src dest opts fs =
     (let srcItem = src @ [item];
          destItem = dest @ [item]
      in if (case filter' opts of None \<Rightarrow> False | Some f \<Rightarrow> \<not> f srcItem destItem)
         then Some (Inr (), fs)
         else (case checkPathsSync env srcItem destItem opts fs of
                 Inl e \<Rightarrow> Some (Inl e, fs)
               | Inr (srcStat, destStat) \<Rightarrow> rec destStat srcItem destItem opts fs))"

text \<open>The \<open>while\<close> loop of \<open>copyDir\<close> over the entries read from the directory.\<close>

fun copyDir_loop ::
  "traversal \<Rightarrow> env \<Rightarrow> string list \<Rightarrow> path \<Rightarrow> path \<Rightarrow> opts \<Rightarrow> fsys \<Rightarrow> unit fs_result option" where
  "copyDir_loop rec env [] src dest opts fs = Some (Inr (), fs)"
| "copyDir_loop rec env (name # names) src dest opts fs =
     (case copyDirItem rec env name src dest opts fs of
        None \<Rightarrow> None
      | Some (Inl e, fs') \<Rightarrow> Some (Inl e, fs')
      | Some (Inr u, fs') \<Rightarrow> copyDir_loop rec env names src dest opts fs')"

definition copyDir ::
  "traversal \<Rightarrow> env \<Rightarrow> path \<Rightarrow> path \<Rightarrow> opts \<Rightarrow> fsys \<Rightarrow> unit fs_result option" where
  "copyDir rec env src dest opts fs =
     (case opendirSync env src fs of
        Inl e \<Rightarrow> Some (Inl e, fs)
      | Inr names \<Rightarrow> copyDir_loop rec env names src dest opts fs)"

definition mkDirAndCopy ::
  "traversal \<Rightarrow> env \<Rightarrow> nat \<Rightarrow> path \<Rightarrow> path \<Rightarrow> opts \<Rightarrow> fsys \<Rightarrow> unit fs_result option" where
  "mkDirAndCopy rec env srcMode src dest opts fs =
     (case mkdirSync env dest fs of
        (Inl e, fs') \<Rightarrow> Some (Inl e, fs')
      | (Inr u, fs') \<Rightarrow>
          (case copyDir rec env src dest opts fs' of
             None \<Rightarrow> None
           | Some (Inl e, fs'') \<Rightarrow> Some (Inl e, fs'')
           | Some (Inr u, fs'') \<Rightarrow> Some (setDestMode env dest srcMode fs'')))"

definition onDir ::
  "traversal \<Rightarrow> env \<Rightarrow> inode \<Rightarrow> inode option \<Rightarrow> path \<Rightarrow> path \<Rightarrow> opts \<Rightarrow> fsys
     \<Rightarrow> unit fs_result option" where
  "onDir rec env srcStat destStat src dest opts fs =
     (if destStat = None then mkDirAndCopy rec env (mode srcStat) src dest opts fs
      else copyDir rec env src dest opts fs)"

fun getStats ::
  "nat \<Rightarrow> env \<Rightarrow> inode option \<Rightarrow> path \<Rightarrow> path \<Rightarrow> opts \<Rightarrow> fsys \<Rightarrow> unit fs_result option" where
  "getStats 0 env destStat src dest opts fs = None"
| "getStats (Suc n) env destStat src dest opts fs =
     (case (if dereference opts then statSync env src fs else lstatSync src fs) of
        Inl e \<Rightarrow> Some (Inl e, fs)
      | Inr srcStat \<Rightarrow>
          if kind srcStat = Directory
          then onDir (getStats n env) env srcStat destStat src dest opts fs
          else if kind srcStat = RegularFile \<or> kind srcStat = CharacterDevice \<or>
                  kind srcStat = BlockDevice
          then Some (onFile env srcStat destStat src dest opts fs)
          else if kind srcStat = SymbolicLink then Some (onLink env destStat src dest opts fs)
          else if kind srcStat = Socket then Some (Inl (SocketFile src), fs)
          else if kind srcStat = FIFO then Some (Inl (FIFOPipe src), fs)
          else Some (Inl (UnknownFile src), fs))"

text \<open>
  The third argument of \<open>copySync\<close> is an options object, a filter function, or missing.
  The warning about \<open>preserveTimestamps\<close> on 32-bit hosts has no effect on the result.
\<close>

datatype opts_arg = OptsObject opts | OptsFunction "path \<Rightarrow> path \<Rightarrow> bool" | OptsMissing

definition no_opts :: opts where
  "no_opts = \<lparr>clobber = None, overwrite = None, errorOnExist = False, preserveTimestamps = False,
              dereference = False, filter' = None\<rparr>"

definition copySync :: "nat \<Rightarrow> env \<Rightarrow> path \<Rightarrow> path \<Rightarrow> opts_arg \<Rightarrow> fsys \<Rightarrow> unit fs_result option" where
  "copySync n env src dest arg fs =
     (let opts = (case arg of
                    OptsFunction f \<Rightarrow> no_opts\<lparr>filter' := Some f\<rparr>
                  | OptsObject opts \<Rightarrow> opts
                  | OptsMissing \<Rightarrow> no_opts);
          opts = opts\<lparr>clobber := Some (case clobber opts of Some c \<Rightarrow> c | None \<Rightarrow> True)\<rparr>;
          opts = opts\<lparr>overwrite := (case overwrite opts of Some v \<Rightarrow> Some v | None \<Rightarrow> clobber opts)\<rparr>
      in case checkPathsSync env src dest opts fs of
           Inl e \<Rightarrow> Some (Inl e, fs)
         | Inr (srcStat, destStat) \<Rightarrow>
             (case checkParentPathsSync env src srcStat dest fs of
                Inl e \<Rightarrow> Some (Inl e, fs)
              | Inr u \<Rightarrow>
                  if (case filter' opts of None \<Rightarrow> False | Some f \<Rightarrow> \<not> f src dest)
                  then Some (Inr (), fs)
                  else (let destParent = butlast dest
                        in case (if \<not> existsSync env destParent fs then mkdirsSync env destParent fs
                                 else (Inr (), fs)) of
                             (Inl e, fs') \<Rightarrow> Some (Inl e, fs')
                           | (Inr u, fs') \<Rightarrow> getStats n env destStat src dest opts fs')))"

section \<open>Notions used in the properties\<close>

text \<open>
  The two relations below follow the words of the specification; the theorems compare
  the patches of the source with them.
\<close>

definition ids_normalized :: "'a stats_scheme \<Rightarrow> 'a stats_scheme \<Rightarrow> bool" where
  "ids_normalized st st' \<longleftrightarrow>
     uid st' = (if uid st < 0 then uid st + 2 ^ 32 else uid st) \<and>
     gid st' = (if gid st < 0 then gid st + 2 ^ 32 else gid st) \<and>
     stats.more st' = stats.more st"

definition expected_permission_artifact :: "nat option \<Rightarrow> error \<Rightarrow> bool" where
  "expected_permission_artifact getuid e \<longleftrightarrow>
     code e = Some ''ENOSYS'' \<or>
     ((code e = Some ''EPERM'' \<or> code e = Some ''EINVAL'') \<and> getuid \<noteq> Some 0)"


text \<open>
  Bookkeeping for the retry queue. A wrapped call is alive as a pending operation, as a
  queue entry, or as a recorded callback invocation; \<open>tokens k\<close> counts all three for
  call \<open>k\<close>. \<open>tokens_ok\<close> is the invariant that every call that exists has at most one token
  and no other number has any.
\<close>

definition completions_of :: "nat \<Rightarrow> state \<Rightarrow> completion list" where
  "completions_of k s = filter (\<lambda>c. by_call c = k) (invoked s)"

definition tokens :: "nat \<Rightarrow> state \<Rightarrow> nat" where
  "tokens k s =
     length (filter (\<lambda>p. fst p = k) (pending s)) +
     length (filter (\<lambda>e. fn e = k) (queue s)) +
     length (filter (\<lambda>c. by_call c = k) (invoked s))"

definition tokens_ok :: "state \<Rightarrow> bool" where
  "tokens_ok s \<longleftrightarrow> (\<forall>k. tokens k s \<le> (if k < length (closures s) then 1 else 0))"

text \<open>
  For the examples: the error of the host for too many open files, one for a refused
  access, and a reading of strings as numbers under which no string is numeric, as is the
  case for the strings of the examples (\<open>/a\<close>, \<open>/b\<close>).
\<close>

definition EMFILE :: error where
  "EMFILE = \<lparr>code = Some ''EMFILE'', message = ''too many open files''\<rparr>"

definition EACCES :: error where
  "EACCES = \<lparr>code = Some ''EACCES'', message = ''permission denied''\<rparr>"

definition not_numeric :: "string \<Rightarrow> jsnum" where
  "not_numeric str = NaN"

text \<open>
  In every reachable state the two time slots of a queue entry and the start time of a
  pending attempt are defined, so that the defaults of the destructuring in \<open>retryQueue\<close>
  never apply.
\<close>

definition slots_ok :: "state \<Rightarrow> bool" where
  "slots_ok s \<longleftrightarrow>
     list_all (\<lambda>e. startTime e \<noteq> Undefined \<and> lastTime e \<noteq> Undefined) (queue s) \<and>
     list_all (\<lambda>p. snd p \<noteq> Undefined) (pending s)"

text \<open>The backoff thresholds and the start slots of the queued entries, in queue order.\<close>

definition thresholds :: "(string \<Rightarrow> jsnum) \<Rightarrow> state \<Rightarrow> jsnum list" where
  "thresholds s2n s = map (\<lambda>e. delay s2n (startTime e) (lastTime e)) (queue s)"

definition start_slots :: "state \<Rightarrow> jsval list" where
  "start_slots s = map startTime (queue s)"

text \<open>No event of the list is a completion of an operation of call \<open>k\<close>.\<close>

definition no_completion_of :: "nat \<Rightarrow> event list \<Rightarrow> bool" where
  "no_completion_of k evs = list_all (\<lambda>ev. case ev of Done j e r \<Rightarrow> j \<noteq> k | _ \<Rightarrow> True) evs"

text \<open>
  Bookkeeping for the copy engine: the path a journal entry acts on; whether the filter
  lets a pair pass; whether it lets pass every entry on the way from the root of the copy
  down a relative path; and the statements that a run of the engine issues writes on one
  path only, or only on paths below \<open>dest\<close> that the filter admits.
\<close>

fun write_path :: "fs_write \<Rightarrow> path" where
  "write_path (Unlink p) = p"
| "write_path (CopyFile s d) = d"
| "write_path (Chmod p m) = p"
| "write_path (Utimes p a m) = p"
| "write_path (Mkdir p) = p"
| "write_path (Symlink t p) = p"

definition passes :: "opts \<Rightarrow> path \<Rightarrow> path \<Rightarrow> bool" where
  "passes opts src dest = (case filter' opts of None \<Rightarrow> True | Some f \<Rightarrow> f src dest)"

definition admitted :: "opts \<Rightarrow> path \<Rightarrow> path \<Rightarrow> string list \<Rightarrow> bool" where
  "admitted opts src dest rel \<longleftrightarrow>
     (\<forall>k. 0 < k \<and> k \<le> length rel \<longrightarrow> passes opts (src @ take k rel) (dest @ take k rel))"

definition writes_at :: "path \<Rightarrow> fsys \<Rightarrow> fsys \<Rightarrow> bool" where
  "writes_at p fs fs' \<longleftrightarrow> (\<exists>ws. journal fs' = journal fs @ ws \<and> (\<forall>w \<in> set ws. write_path w = p))"

definition writes_within :: "opts \<Rightarrow> path \<Rightarrow> path \<Rightarrow> fsys \<Rightarrow> fsys \<Rightarrow> bool" where
  "writes_within opts src dest fs fs' \<longleftrightarrow>
     (\<exists>ws. journal fs' = journal fs @ ws \<and>
        (\<forall>w \<in> set ws. \<exists>rel. write_path w = dest @ rel \<and> admitted opts src dest rel))"

definition rec_ok :: "traversal \<Rightarrow> bool" where
  "rec_ok rec \<longleftrightarrow>
     (\<forall>destStat s d opts fs r fs'.
        rec destStat s d opts fs = Some (r, fs') \<longrightarrow> writes_within opts s d fs fs')"

definition normalized :: "opts \<Rightarrow> opts" where
  "normalized opts =
     (let opts = opts\<lparr>clobber := Some (case clobber opts of Some c \<Rightarrow> c | None \<Rightarrow> True)\<rparr>
      in opts\<lparr>overwrite := (case overwrite opts of Some v \<Rightarrow> Some v | None \<Rightarrow> clobber opts)\<rparr>)"

text \<open>
  A small world for the examples: collaborators that accept every pair of paths, a tree
  \<open>a\<close> with a file, a subdirectory and a link, and a destination \<open>b\<close> that already
  holds a file and a link of the same names; a filter that rejects \<open>a/sub\<close>.
\<close>

definition example_env :: env where
  "example_env =
     \<lparr>checkPathsSync = (\<lambda>src dest opts fs.
          case lstatSync src fs of Inl e \<Rightarrow> Inl e | Inr si \<Rightarrow> Inr (si, node fs dest)),
      checkParentPathsSync = (\<lambda>src srcStat dest fs. Inr ()),
      isSrcSubdir = (\<lambda>a b. take (length a) b = a),
      resolve_cwd = (\<lambda>t. ''/cwd/'' @ t),
      follow = (\<lambda>p t. butlast p @ [t]),
      time_now = 1000\<rparr>"

definition a_f1 :: inode where
  "a_f1 = \<lparr>kind = RegularFile, mode = 420, content = [104, 105], link = [], atime = 5, mtime = 6\<rparr>"

definition b_f1 :: inode where
  "b_f1 = \<lparr>kind = RegularFile, mode = 384, content = [0], link = [], atime = 7, mtime = 8\<rparr>"

definition a_l :: inode where
  "a_l = \<lparr>kind = SymbolicLink, mode = 511, content = [], link = ''/x/y'', atime = 1, mtime = 1\<rparr>"

definition b_l :: inode where
  "b_l = \<lparr>kind = SymbolicLink, mode = 511, content = [], link = ''/z'', atime = 2, mtime = 2\<rparr>"

definition a_dir :: inode where
  "a_dir = \<lparr>kind = Directory, mode = 493, content = [], link = [], atime = 0, mtime = 0\<rparr>"

definition example_fs :: fsys where
  "example_fs =
     \<lparr>nodes = [([''a''], a_dir), ([''a'', ''f1''], a_f1), ([''a'', ''sub''], a_dir),
               ([''a'', ''sub'', ''f2''], b_f1), ([''a'', ''l''], a_l),
               ([''b''], a_dir), ([''b'', ''f1''], b_f1), ([''b'', ''l''], b_l)],
      journal = []\<rparr>"

definition not_sub :: "path \<Rightarrow> path \<Rightarrow> bool" where
  "not_sub s d \<longleftrightarrow> s \<noteq> [''a'', ''sub'']"

section \<open>Properties of the metadata patches\<close>

lemma isIgnorableChownErr_Some:
  "isIgnorableChownErr getuid (Some e) = expected_permission_artifact getuid e"
  by (auto simp: isIgnorableChownErr_def expected_permission_artifact_def)

lemma isIgnorableChownErr_None: "isIgnorableChownErr getuid None"
  by (simp add: isIgnorableChownErr_def)

lemma patchFs_stat_fields:
  "stat (patchFs getuid m) = statFix (stat m) \<and>
   fstat (patchFs getuid m) = statFix (fstat m) \<and>
   lstat (patchFs getuid m) = statFix (lstat m) \<and>
   fs_module.statSync (patchFs getuid m) = statFixSync (fs_module.statSync m) \<and>
   fstatSync (patchFs getuid m) = statFixSync (fstatSync m) \<and>
   fs_module.lstatSync (patchFs getuid m) = statFixSync (fs_module.lstatSync m)"
  by (simp add: patchFs_def Let_def)

lemma patchFs_chown_fields:
  "chown (patchFs getuid m) = chownFix getuid (chown m) \<and>
   fchown (patchFs getuid m) = chownFix getuid (fchown m) \<and>
   chmod (patchFs getuid m) = chmodFix getuid (chmod m) \<and>
   fchmod (patchFs getuid m) = chmodFix getuid (fchmod m) \<and>
   chownSync (patchFs getuid m) = chownFixSync getuid (chownSync m) \<and>
   fchownSync (patchFs getuid m) = chownFixSync getuid (fchownSync m) \<and>
   fs_module.chmodSync (patchFs getuid m) = chmodFixSync getuid (fs_module.chmodSync m) \<and>
   fchmodSync (patchFs getuid m) = chmodFixSync getuid (fchmodSync m)"
  by (simp add: patchFs_def Let_def)

lemma patchFs_lchown_fields:
  "lchown m = Some f \<Longrightarrow> lchown (patchFs getuid m) = chownFix getuid (Some f)"
  "lchown m = Some f \<Longrightarrow> lchownSync (patchFs getuid m) = chownFixSync getuid (lchownSync m)"
  "lchmod m = Some h \<Longrightarrow> lchmod (patchFs getuid m) = chmodFix getuid (Some h)"
  "lchmod m = Some h \<Longrightarrow> lchmodSync (patchFs getuid m) = chmodFixSync getuid (lchmodSync m)"
  by (simp_all add: patchFs_def Let_def chownFix_def chmodFix_def)

text \<open>
  C9. Every patched stat operation hands the caller the error of the original unchanged
  and the stats of the original with a negative \<open>uid\<close> or \<open>gid\<close> increased by \<open>2 ^ 32\<close>,
  non-negative identifiers and all other fields as they were; \<open>patchFs\<close> installs these
  patches on \<open>stat\<close>, \<open>fstat\<close>, \<open>lstat\<close> and their Sync variants.
\<close>

theorem patched_stat_normalizes_ids:
  "(case statFix (Some f) of
      None \<Rightarrow> False
    | Some g \<Rightarrow>
        fst (g tgt options) = fst (f tgt (case options of Callback \<Rightarrow> Absent | _ \<Rightarrow> options)) \<and>
        rel_option ids_normalized
          (snd (f tgt (case options of Callback \<Rightarrow> Absent | _ \<Rightarrow> options)))
          (snd (g tgt options))) \<and>
   (case statFixSync (Some h) of
      None \<Rightarrow> False
    | Some g \<Rightarrow>
        (case h tgt' options' of
           Inl e \<Rightarrow> g tgt' options' = Inl e
         | Inr st \<Rightarrow> (case g tgt' options' of
                        Inl e \<Rightarrow> False
                      | Inr st' \<Rightarrow> rel_option ids_normalized st st'))) \<and>
   stat (patchFs getuid m) = statFix (stat m) \<and>
   fstat (patchFs getuid m) = statFix (fstat m) \<and>
   lstat (patchFs getuid m) = statFix (lstat m) \<and>
   fs_module.statSync (patchFs getuid m) = statFixSync (fs_module.statSync m) \<and>
   fstatSync (patchFs getuid m) = statFixSync (fstatSync m) \<and>
   fs_module.lstatSync (patchFs getuid m) = statFixSync (fs_module.lstatSync m)"
proof -
  have async: "case statFix (Some f) of
      None \<Rightarrow> False
    | Some g \<Rightarrow>
        fst (g tgt options) = fst (f tgt (case options of Callback \<Rightarrow> Absent | _ \<Rightarrow> options)) \<and>
        rel_option ids_normalized
          (snd (f tgt (case options of Callback \<Rightarrow> Absent | _ \<Rightarrow> options)))
          (snd (g tgt options))"
    by (cases "f tgt (case options of Callback \<Rightarrow> Absent | _ \<Rightarrow> options)")
       (auto simp: statFix_def Let_def ids_normalized_def split: option.splits)
  have sync: "case statFixSync (Some h) of
      None \<Rightarrow> False
    | Some g \<Rightarrow>
        (case h tgt' options' of
           Inl e \<Rightarrow> g tgt' options' = Inl e
         | Inr st \<Rightarrow> (case g tgt' options' of
                        Inl e \<Rightarrow> False
                      | Inr st' \<Rightarrow> rel_option ids_normalized st st'))"
    by (auto simp: statFixSync_def Let_def ids_normalized_def split: option.splits sum.splits)
  from async sync patchFs_stat_fields [of getuid m] show ?thesis by blast
qed

theorem patched_stat_normalizes_ids_witness:
  "(case statFix (Some (\<lambda>(t::string) (a::unit stat_arg).
            (None :: error option, Some \<lparr>uid = - 2, gid = 7\<rparr>))) of
      None \<Rightarrow> False
    | Some g \<Rightarrow> g ''/tmp/x'' Callback = (None, Some \<lparr>uid = 4294967294, gid = 7\<rparr>))"
proof -
  let ?f = "\<lambda>(t::string) (a::unit stat_arg). (None :: error option, Some \<lparr>uid = - 2, gid = 7\<rparr>)"
  obtain g where g: "statFix (Some ?f) = Some g"
    by (simp add: statFix_def)
  from patched_stat_normalizes_ids [where f = ?f and tgt = "''/tmp/x''" and options = Callback, THEN conjunct1]
  have "fst (g ''/tmp/x'' Callback) = None"
    and "rel_option ids_normalized (Some \<lparr>uid = - 2, gid = 7\<rparr>) (snd (g ''/tmp/x'' Callback))"
    by (simp_all add: g)
  then have "g ''/tmp/x'' Callback = (None, Some \<lparr>uid = 4294967294, gid = 7\<rparr>)"
    by (cases "g ''/tmp/x'' Callback") (auto simp: ids_normalized_def option_rel_Some1)
  with g show ?thesis by simp
qed

text \<open>
  C10. A patched chown or chmod operation reports an error of the original as success
  exactly when its code is \<open>ENOSYS\<close>, or its code is \<open>EPERM\<close> or \<open>EINVAL\<close> while the
  process is not running as root; every other error, and every result, reaches the caller
  unchanged. \<open>patchFs\<close> installs these patches on \<open>chown\<close>, \<open>fchown\<close>, \<open>chmod\<close>,
  \<open>fchmod\<close> and their Sync variants, and on \<open>lchown\<close> and \<open>lchmod\<close> where the module
  has them.
\<close>

theorem patched_chown_chmod_swallow_artifacts:
  "(case chownFix getuid (Some f) of
      None \<Rightarrow> False
    | Some g \<Rightarrow>
        snd (g tgt u gi) = snd (f tgt u gi) \<and>
        fst (g tgt u gi) =
          (case fst (f tgt u gi) of
             None \<Rightarrow> None
           | Some e \<Rightarrow> if expected_permission_artifact getuid e then None else Some e)) \<and>
   (case chmodFix getuid (Some f') of
      None \<Rightarrow> False
    | Some g \<Rightarrow>
        snd (g tgt md) = snd (f' tgt md) \<and>
        fst (g tgt md) =
          (case fst (f' tgt md) of
             None \<Rightarrow> None
           | Some e \<Rightarrow> if expected_permission_artifact getuid e then None else Some e)) \<and>
   (case chownFixSync getuid (Some h) of
      None \<Rightarrow> False
    | Some g \<Rightarrow>
        g tgt u gi =
          (case h tgt u gi of
             Inr r \<Rightarrow> Inr r
           | Inl e \<Rightarrow> if expected_permission_artifact getuid e then Inr None else Inl e)) \<and>
   (case chmodFixSync getuid (Some h') of
      None \<Rightarrow> False
    | Some g \<Rightarrow>
        g tgt md =
          (case h' tgt md of
             Inr r \<Rightarrow> Inr r
           | Inl e \<Rightarrow> if expected_permission_artifact getuid e then Inr None else Inl e)) \<and>
   chown (patchFs getuid m) = chownFix getuid (chown m) \<and>
   fchown (patchFs getuid m) = chownFix getuid (fchown m) \<and>
   chmod (patchFs getuid m) = chmodFix getuid (chmod m) \<and>
   fchmod (patchFs getuid m) = chmodFix getuid (fchmod m) \<and>
   chownSync (patchFs getuid m) = chownFixSync getuid (chownSync m) \<and>
   fchownSync (patchFs getuid m) = chownFixSync getuid (fchownSync m) \<and>
   fs_module.chmodSync (patchFs getuid m) = chmodFixSync getuid (fs_module.chmodSync m) \<and>
   fchmodSync (patchFs getuid m) = chmodFixSync getuid (fchmodSync m) \<and>
   (case lchown m of
      None \<Rightarrow> True
    | Some l \<Rightarrow> lchown (patchFs getuid m) = chownFix getuid (Some l) \<and>
                lchownSync (patchFs getuid m) = chownFixSync getuid (lchownSync m)) \<and>
   (case lchmod m of
      None \<Rightarrow> True
    | Some l \<Rightarrow> lchmod (patchFs getuid m) = chmodFix getuid (Some l) \<and>
                lchmodSync (patchFs getuid m) = chmodFixSync getuid (lchmodSync m))"
proof -
  have a: "case chownFix getuid (Some f) of
      None \<Rightarrow> False
    | Some g \<Rightarrow>
        snd (g tgt u gi) = snd (f tgt u gi) \<and>
        fst (g tgt u gi) =
          (case fst (f tgt u gi) of
             None \<Rightarrow> None
           | Some e \<Rightarrow> if expected_permission_artifact getuid e then None else Some e)"
    by (cases "f tgt u gi")
       (auto simp: chownFix_def isIgnorableChownErr_Some isIgnorableChownErr_None split: option.splits)
  have b: "case chmodFix getuid (Some f') of
      None \<Rightarrow> False
    | Some g \<Rightarrow>
        snd (g tgt md) = snd (f' tgt md) \<and>
        fst (g tgt md) =
          (case fst (f' tgt md) of
             None \<Rightarrow> None
           | Some e \<Rightarrow> if expected_permission_artifact getuid e then None else Some e)"
    by (cases "f' tgt md")
       (auto simp: chmodFix_def isIgnorableChownErr_Some isIgnorableChownErr_None split: option.splits)
  have c: "case chownFixSync getuid (Some h) of
      None \<Rightarrow> False
    | Some g \<Rightarrow>
        g tgt u gi =
          (case h tgt u gi of
             Inr r \<Rightarrow> Inr r
           | Inl e \<Rightarrow> if expected_permission_artifact getuid e then Inr None else Inl e)"
    by (auto simp: chownFixSync_def isIgnorableChownErr_Some split: sum.splits)
  have d: "case chmodFixSync getuid (Some h') of
      None \<Rightarrow> False
    | Some g \<Rightarrow>
        g tgt md =
          (case h' tgt md of
             Inr r \<Rightarrow> Inr r
           | Inl e \<Rightarrow> if expected_permission_artifact getuid e then Inr None else Inl e)"
    by (auto simp: chmodFixSync_def isIgnorableChownErr_Some split: sum.splits)
  have e: "case lchown m of
      None \<Rightarrow> True
    | Some l \<Rightarrow> lchown (patchFs getuid m) = chownFix getuid (Some l) \<and>
                lchownSync (patchFs getuid m) = chownFixSync getuid (lchownSync m)"
    by (simp add: patchFs_lchown_fields split: option.splits)
  have f: "case lchmod m of
      None \<Rightarrow> True
    | Some l \<Rightarrow> lchmod (patchFs getuid m) = chmodFix getuid (Some l) \<and>
                lchmodSync (patchFs getuid m) = chmodFixSync getuid (lchmodSync m)"
    by (simp add: patchFs_lchown_fields split: option.splits)
  from a b c d e f patchFs_chown_fields [of getuid m] show ?thesis by blast
qed

theorem patched_chown_chmod_swallow_artifacts_witness:
  "(case chownFixSync (Some 1000) (Some (\<lambda>(t::string) (u::nat) (g::nat).
            (Inl \<lparr>code = Some ''EPERM'', message = ''operation not permitted''\<rparr> :: error + unit option))) of
      None \<Rightarrow> False
    | Some g \<Rightarrow> g ''/tmp/x'' 0 0 = Inr None) \<and>
   (case chownFixSync (Some 0) (Some (\<lambda>(t::string) (u::nat) (g::nat).
            (Inl \<lparr>code = Some ''EPERM'', message = ''operation not permitted''\<rparr> :: error + unit option))) of
      None \<Rightarrow> False
    | Some g \<Rightarrow> g ''/tmp/x'' 0 0 = Inl \<lparr>code = Some ''EPERM'', message = ''operation not permitted''\<rparr>)"
proof -
  let ?e = "\<lparr>code = Some ''EPERM'', message = ''operation not permitted''\<rparr>"
  let ?h = "\<lambda>(t::string) (u::nat) (g::nat). (Inl ?e :: error + unit option)"
  have 1: "expected_permission_artifact (Some 1000) ?e"
    by (simp add: expected_permission_artifact_def)
  have 2: "\<not> expected_permission_artifact (Some 0) ?e"
    by (simp add: expected_permission_artifact_def)
  from patched_chown_chmod_swallow_artifacts
         [where getuid = "Some 1000" and h = ?h and tgt = "''/tmp/x''" and u = 0 and gi = 0,
          THEN conjunct2, THEN conjunct2, THEN conjunct1] 1
  have A: "case chownFixSync (Some 1000) (Some ?h) of None \<Rightarrow> False | Some g \<Rightarrow> g ''/tmp/x'' 0 0 = Inr None"
    by (simp split: option.splits)
  from patched_chown_chmod_swallow_artifacts
         [where getuid = "Some 0" and h = ?h and tgt = "''/tmp/x''" and u = 0 and gi = 0,
          THEN conjunct2, THEN conjunct2, THEN conjunct1] 2
  have B: "case chownFixSync (Some 0) (Some ?h) of None \<Rightarrow> False | Some g \<Rightarrow> g ''/tmp/x'' 0 0 = Inl ?e"
    by (simp split: option.splits)
  from A B show ?thesis by simp
qed

section \<open>Properties of the retry queue\<close>

subsection \<open>Every call keeps at most one token\<close>

lemma tokens_scheduleRetry [simp]: "tokens k (scheduleRetry s) = tokens k s"
  by (simp add: tokens_def scheduleRetry_def)

lemma tokens_enqueue [simp]: "tokens k (enqueue e s) = tokens k s + (if fn e = k then 1 else 0)"
  by (simp add: enqueue_def) (simp add: tokens_def)

lemma tokens_attempt [simp]: "tokens k (attempt j argv s) = tokens k s + (if j = k then 1 else 0)"
  by (simp add: attempt_def Let_def tokens_def)

lemma tokens_resetQueue [simp]: "tokens k (resetQueue s) = tokens k s"
  by (simp add: resetQueue_def Let_def) (simp add: tokens_def filter_map o_def)

lemma tokens_wrapWithRetry:
  "tokens k (wrapWithRetry argv s) = tokens k s + (if k = length (closures s) then 1 else 0)"
  by (auto simp add: wrapWithRetry_def Let_def) (simp_all add: tokens_def)

lemma tokens_attempt_callback:
  "tokens k' (attempt_callback k st e r s) \<le> tokens k' s + (if k = k' then 1 else 0)"
  by (auto simp: attempt_callback_def split: prod.splits option.splits) (simp_all add: tokens_def)

lemma filter_remove_pending:
  "map_of ps k = Some st \<Longrightarrow>
   length (filter (\<lambda>p. fst p = k') (remove_pending k ps)) + (if k = k' then 1 else 0)
     = length (filter (\<lambda>p. fst p = k') ps)"
  by (induction ps) (auto split: if_splits)

lemma tokens_remove_pending:
  "map_of (pending s) k = Some st \<Longrightarrow>
   tokens k' (s\<lparr>pending := remove_pending k (pending s)\<rparr>) + (if k = k' then 1 else 0) = tokens k' s"
  using filter_remove_pending [of "pending s" k st k'] by (simp add: tokens_def)

lemma tokens_retryQueue_step: "tokens k (retryQueue_step s2n s) \<le> tokens k s"
proof (cases "queue s")
  case Nil
  then show ?thesis by (simp add: retryQueue_step_def tokens_def)
next
  case (Cons e rest)
  have t: "tokens k (s\<lparr>queue := rest\<rparr>) + (if fn e = k then 1 else 0) = tokens k s"
    using Cons by (simp add: tokens_def)
  show ?thesis
    using t Cons
    by (auto simp: retryQueue_step_def Let_def) (simp_all add: tokens_def)
qed

lemma step_tokens:
  assumes "step s2n ev s = Some s'"
  shows "tokens k s' \<le> tokens k s + (if (\<exists>argv. ev = Call argv) \<and> k = length (closures s) then 1 else 0)"
proof (cases ev)
  case (Tick d)
  with assms show ?thesis by (auto simp: step_def tokens_def)
next
  case (Call argv)
  with assms show ?thesis by (auto simp: step_def tokens_wrapWithRetry)
next
  case (Done j e r)
  with assms obtain st where st: "map_of (pending s) j = Some st"
    and s': "s' = attempt_callback j st e r (s\<lparr>pending := remove_pending j (pending s)\<rparr>)"
    by (auto simp: step_def split: option.splits if_splits)
  from tokens_attempt_callback [of k j st e r "s\<lparr>pending := remove_pending j (pending s)\<rparr>"]
       tokens_remove_pending [OF st, of k]
  show ?thesis unfolding s' using Done by (auto split: if_splits)
next
  case Timer
  with assms show ?thesis by (auto simp: step_def tokens_def split: if_splits)
next
  case Iterate
  with assms show ?thesis using tokens_retryQueue_step [of k s2n s]
    by (auto simp: step_def split: if_splits)
next
  case After
  with assms show ?thesis by (auto simp: step_def after_loop_def Let_def split: if_splits) (simp_all add: tokens_def)
next
  case Reset
  with assms show ?thesis by (auto simp: step_def)
qed


lemma tokens_ok_init: "tokens_ok init"
  by (simp add: tokens_ok_def tokens_def init_def)

lemma closures_scheduleRetry [simp]: "closures (scheduleRetry s) = closures s"
  by (simp add: scheduleRetry_def)

lemma invoked_scheduleRetry [simp]: "invoked (scheduleRetry s) = invoked s"
  by (simp add: scheduleRetry_def)

lemma step_closures:
  "step s2n ev s = Some s' \<Longrightarrow>
   closures s' = closures s @ (case ev of Call argv \<Rightarrow> [last (closures s')] | _ \<Rightarrow> [])"
  by (cases ev)
     (auto simp: step_def wrapWithRetry_def attempt_def attempt_callback_def enqueue_def
        retryQueue_step_def after_loop_def resetQueue_def Let_def
        split: option.splits if_splits prod.splits list.splits)

lemma step_closures_length:
  "step s2n ev s = Some s' \<Longrightarrow>
   length (closures s') = length (closures s) + (if (\<exists>argv. ev = Call argv) then 1 else 0)"
  by (drule step_closures) (auto split: event.splits dest: arg_cong [where f = length])

lemma step_closures_nth:
  "step s2n ev s = Some s' \<Longrightarrow> k < length (closures s) \<Longrightarrow> closures s' ! k = closures s ! k"
  by (drule step_closures) (metis nth_append)

lemma step_tokens_ok:
  assumes "tokens_ok s" and "step s2n ev s = Some s'"
  shows "tokens_ok s'"
  unfolding tokens_ok_def
proof
  fix k
  from assms(1) have a: "tokens k s \<le> (if k < length (closures s) then 1 else 0)"
    by (simp add: tokens_ok_def)
  from step_tokens [OF assms(2), of k] step_closures_length [OF assms(2)] a
  show "tokens k s' \<le> (if k < length (closures s') then 1 else 0)"
    by (auto split: if_splits)
qed

lemma step_invoked: "step s2n ev s = Some s' \<Longrightarrow> \<exists>l. invoked s' = invoked s @ l"
  by (cases ev)
     (auto simp: step_def wrapWithRetry_def attempt_def attempt_callback_def enqueue_def
        retryQueue_step_def after_loop_def resetQueue_def Let_def
        split: option.splits if_splits prod.splits list.splits)

lemma run_tokens_ok: "tokens_ok s \<Longrightarrow> run s2n evs s = Some s' \<Longrightarrow> tokens_ok s'"
  by (induction evs arbitrary: s) (auto split: option.splits dest: step_tokens_ok)

lemma run_invoked: "run s2n evs s = Some s' \<Longrightarrow> \<exists>l. invoked s' = invoked s @ l"
proof (induction evs arbitrary: s)
  case Nil
  then show ?case by simp
next
  case (Cons ev evs)
  then obtain s1 where 1: "step s2n ev s = Some s1" and 2: "run s2n evs s1 = Some s'"
    by (auto split: option.splits)
  from step_invoked [OF 1] Cons.IH [OF 2] show ?case by auto
qed

lemma run_closures_nth:
  "run s2n evs s = Some s' \<Longrightarrow> k < length (closures s) \<Longrightarrow>
   k < length (closures s') \<and> closures s' ! k = closures s ! k"
proof (induction evs arbitrary: s)
  case Nil
  then show ?case by simp
next
  case (Cons ev evs)
  then obtain s1 where 1: "step s2n ev s = Some s1" and 2: "run s2n evs s1 = Some s'"
    by (auto split: option.splits)
  from step_closures_length [OF 1] Cons.prems(2) have "k < length (closures s1)" by simp
  with Cons.IH [OF 2] step_closures_nth [OF 1 Cons.prems(2)] show ?case by simp
qed

lemma run_append:
  "run s2n (evs1 @ evs2) s = (case run s2n evs1 s of None \<Rightarrow> None | Some s' \<Rightarrow> run s2n evs2 s')"
  by (induction evs1 arbitrary: s) (auto split: option.splits)

text \<open>Once the callback of a call has been invoked, nothing of that call is left.\<close>

lemma completed_is_final:
  assumes "tokens_ok s" and "completions_of k s = [c]" and "run s2n evs s = Some s'"
  shows "completions_of k s' = [c] \<and> filter (\<lambda>e. fn e = k) (queue s') = [] \<and>
         filter (\<lambda>p. fst p = k) (pending s') = []"
proof -
  from run_invoked [OF assms(3)] obtain l where l: "invoked s' = invoked s @ l" by blast
  from run_tokens_ok [OF assms(1,3)] have "tokens k s' \<le> 1" by (auto simp: tokens_ok_def split: if_splits)
  with l assms(2) show ?thesis
    by (simp add: tokens_def completions_of_def)
qed

lemma tokens_ok_completed_now:
  assumes "tokens_ok s" and "invoked s = l @ [c]" and "by_call c = k"
  shows "completions_of k s = [c]"
proof -
  from assms(1) have "tokens k s \<le> 1" by (auto simp: tokens_ok_def split: if_splits)
  with assms(2,3) show ?thesis by (simp add: tokens_def completions_of_def)
qed

lemma Done_not_exhaustion:
  assumes "step s2n (Done k e results) s = Some s'"
    and "case e of None \<Rightarrow> True | Some x \<Rightarrow> \<not> is_exhaustion x"
    and "snd (closures s ! k) = Function c"
  shows "invoked s' = invoked s @ [\<lparr>by_call = k, callee = Function c, cb_err = e, cb_results = results\<rparr>]
         \<and> queue s' = queue s \<and> pending s' = remove_pending k (pending s)
         \<and> retryTimer s' = retryTimer s"
  using assms
  by (auto simp: step_def attempt_callback_def split: option.splits if_splits prod.splits)

subsection \<open>Completions\<close>

text \<open>
  C3. Take any history of the retry queue, a pending attempt of call \<open>k\<close> that then
  completes successfully (in particular a retry after resource-exhaustion failures), and
  any continuation. If the call was given a callback, that callback has been invoked
  exactly once at the end, with the success result, and never with an error.
\<close>

theorem success_completes_exactly_once:
  assumes "run s2n evs1 init = Some s1"
    and "step s2n (Done k None results) s1 = Some s2"
    and "snd (closures s1 ! k) = Function c"
    and "run s2n evs2 s2 = Some s3"
  shows "completions_of k s3 =
           [\<lparr>by_call = k, callee = Function c, cb_err = None, cb_results = results\<rparr>]"
proof -
  have ok2: "tokens_ok s2" using run_tokens_ok [OF tokens_ok_init assms(1)] assms(2) by (rule step_tokens_ok)
  from Done_not_exhaustion [OF assms(2) _ assms(3)]
  have "invoked s2 = invoked s1 @ [\<lparr>by_call = k, callee = Function c, cb_err = None, cb_results = results\<rparr>]"
    by simp
  from tokens_ok_completed_now [OF ok2 this] completed_is_final [OF ok2 _ assms(4)]
  show ?thesis by simp
qed

theorem success_completes_exactly_once_witness:
  "\<exists>s1 s2 s3.
     run not_numeric
       [Call [String ''/a'', Function 7], Done 0 (Some EMFILE) [], Tick 2, Timer, Iterate] init = Some s1 \<and>
     step not_numeric (Done 0 None [Number (Fin 3)]) s1 = Some s2 \<and>
     snd (closures s1 ! 0) = Function 7 \<and>
     run not_numeric [Iterate, After] s2 = Some s3 \<and>
     completions_of 0 s3 =
       [\<lparr>by_call = 0, callee = Function 7, cb_err = None, cb_results = [Number (Fin 3)]\<rparr>]"
proof -
  have "case run not_numeric
       [Call [String ''/a'', Function 7], Done 0 (Some EMFILE) [], Tick 2, Timer, Iterate] init of
      None \<Rightarrow> False
    | Some s1 \<Rightarrow> snd (closures s1 ! 0) = Function 7 \<and>
        (case step not_numeric (Done 0 None [Number (Fin 3)]) s1 of
           None \<Rightarrow> False
         | Some s2 \<Rightarrow> (case run not_numeric [Iterate, After] s2 of None \<Rightarrow> False | Some s3 \<Rightarrow> True))"
    by code_simp
  then obtain s1 s2 s3 where
    1: "run not_numeric
       [Call [String ''/a'', Function 7], Done 0 (Some EMFILE) [], Tick 2, Timer, Iterate] init = Some s1"
    and 2: "step not_numeric (Done 0 None [Number (Fin 3)]) s1 = Some s2"
    and 3: "snd (closures s1 ! 0) = Function 7"
    and 4: "run not_numeric [Iterate, After] s2 = Some s3"
    by (auto split: option.splits)
  from success_completes_exactly_once [OF 1 2 3 4] 1 2 3 4 show ?thesis by blast
qed

text \<open>
  C5. When a pending attempt of call \<open>k\<close> completes with an error whose code is neither
  \<open>EMFILE\<close> nor \<open>ENFILE\<close>, the callback of the call receives that error and the results
  as they are; the queue is not touched and no attempt is issued by the completion; and
  whatever happens afterwards, that invocation stays the only one, and the call never
  appears in the queue or among the pending operations again.
\<close>

theorem other_errors_pass_through:
  assumes "run s2n evs1 init = Some s1"
    and "step s2n (Done k (Some e) results) s1 = Some s2"
    and "\<not> is_exhaustion e"
    and "snd (closures s1 ! k) = Function c"
    and "run s2n evs2 s2 = Some s3"
  shows "completions_of k s3 =
           [\<lparr>by_call = k, callee = Function c, cb_err = Some e, cb_results = results\<rparr>] \<and>
         queue s2 = queue s1 \<and> pending s2 = remove_pending k (pending s1) \<and>
         filter (\<lambda>q. fn q = k) (queue s3) = [] \<and> filter (\<lambda>p. fst p = k) (pending s3) = []"
proof -
  have ok2: "tokens_ok s2" using run_tokens_ok [OF tokens_ok_init assms(1)] assms(2) by (rule step_tokens_ok)
  from Done_not_exhaustion [OF assms(2) _ assms(4)] assms(3)
  have d: "invoked s2 = invoked s1 @ [\<lparr>by_call = k, callee = Function c, cb_err = Some e, cb_results = results\<rparr>]
     \<and> queue s2 = queue s1 \<and> pending s2 = remove_pending k (pending s1)"
    by simp
  from tokens_ok_completed_now [OF ok2 d [THEN conjunct1]] completed_is_final [OF ok2 _ assms(5)] d
  show ?thesis by simp
qed

theorem other_errors_pass_through_witness:
  "\<exists>s1 s2 s3.
     run not_numeric [Call [String ''/a'', Function 7], Tick 3] init = Some s1 \<and>
     step not_numeric (Done 0 (Some EACCES) []) s1 = Some s2 \<and>
     \<not> is_exhaustion EACCES \<and>
     snd (closures s1 ! 0) = Function 7 \<and>
     run not_numeric [Tick 100, Call [String ''/b'', Function 8], Done 1 (Some EMFILE) [], Timer, Iterate] s2
       = Some s3 \<and>
     completions_of 0 s3 =
       [\<lparr>by_call = 0, callee = Function 7, cb_err = Some EACCES, cb_results = []\<rparr>] \<and>
     queue s2 = queue s1 \<and> pending s2 = [] \<and>
     filter (\<lambda>q. fn q = 0) (queue s3) = [] \<and> filter (\<lambda>p. fst p = 0) (pending s3) = []"
proof -
  have "case run not_numeric [Call [String ''/a'', Function 7], Tick 3] init of
      None \<Rightarrow> False
    | Some s1 \<Rightarrow> snd (closures s1 ! 0) = Function 7 \<and> remove_pending 0 (pending s1) = [] \<and>
        (case step not_numeric (Done 0 (Some EACCES) []) s1 of
           None \<Rightarrow> False
         | Some s2 \<Rightarrow>
             (case run not_numeric
                [Tick 100, Call [String ''/b'', Function 8], Done 1 (Some EMFILE) [], Timer, Iterate] s2 of
                None \<Rightarrow> False | Some s3 \<Rightarrow> True))"
    by code_simp
  then obtain s1 s2 s3 where
    1: "run not_numeric [Call [String ''/a'', Function 7], Tick 3] init = Some s1"
    and 2: "step not_numeric (Done 0 (Some EACCES) []) s1 = Some s2"
    and 4: "snd (closures s1 ! 0) = Function 7"
    and 5: "run not_numeric
              [Tick 100, Call [String ''/b'', Function 8], Done 1 (Some EMFILE) [], Timer, Iterate] s2 = Some s3"
    and 6: "remove_pending 0 (pending s1) = []"
    by (auto split: option.splits)
  have 3: "\<not> is_exhaustion EACCES" by code_simp
  from other_errors_pass_through [OF 1 2 3 4 5] 1 2 3 4 5 6 show ?thesis by auto
qed

subsection \<open>Abandonment\<close>

lemma scheduleRetry_fields [simp]:
  "queue (scheduleRetry s) = queue s" "pending (scheduleRetry s) = pending s"
  "phase (scheduleRetry s) = phase s" "clock (scheduleRetry s) = clock s"
  "retryTimer (scheduleRetry s) = True"
  by (simp_all add: scheduleRetry_def)

lemma slots_ok_init: "slots_ok init"
  by (simp add: slots_ok_def init_def)

lemma Date_now_defined [simp]: "Date_now s \<noteq> Undefined"
  by (simp add: Date_now_def)

lemma list_all_remove_pending: "list_all P ps \<Longrightarrow> list_all P (remove_pending k ps)"
  by (induction ps) auto

lemma slots_ok_attempt: "slots_ok s \<Longrightarrow> slots_ok (attempt k argv s)"
  by (auto simp: slots_ok_def attempt_def Let_def split: list.splits)

lemma slots_ok_retryQueue_step: "slots_ok s \<Longrightarrow> slots_ok (retryQueue_step s2n s)"
proof (cases "queue s")
  case Nil
  assume "slots_ok s"
  with Nil show ?thesis by (simp add: retryQueue_step_def slots_ok_def)
next
  case (Cons e rest)
  assume ok: "slots_ok s"
  then have r: "slots_ok (s\<lparr>queue := rest\<rparr>)" using Cons by (simp add: slots_ok_def)
  from ok Cons have e: "startTime e \<noteq> Undefined" "lastTime e \<noteq> Undefined"
    by (simp_all add: slots_ok_def)
  show ?thesis
    using Cons e r slots_ok_attempt [OF r, of "fn e" "args e @ [startTime e]"]
    by (auto simp: retryQueue_step_def Let_def) (simp_all add: slots_ok_def)
qed

lemma map_of_list_all: "map_of ps k = Some v \<Longrightarrow> list_all P ps \<Longrightarrow> P (k, v)"
  by (induction ps) (auto split: if_splits)

lemma step_slots_ok:
  assumes "slots_ok s" and "step s2n ev s = Some s'"
  shows "slots_ok s'"
proof (cases ev)
  case (Tick d)
  with assms show ?thesis by (auto simp: step_def slots_ok_def)
next
  case (Call argv)
  with assms show ?thesis
    by (auto simp: step_def wrapWithRetry_def Let_def intro!: slots_ok_attempt) (simp_all add: slots_ok_def)
next
  case (Done j e r)
  with assms obtain st where st: "map_of (pending s) j = Some st"
    and s': "s' = attempt_callback j st e r (s\<lparr>pending := remove_pending j (pending s)\<rparr>)"
    by (auto simp: step_def split: option.splits if_splits)
  from map_of_list_all [OF st, of "\<lambda>p. snd p \<noteq> Undefined"] assms(1) have "st \<noteq> Undefined"
    by (simp add: slots_ok_def)
  with assms(1) show ?thesis unfolding s'
    by (auto simp: attempt_callback_def enqueue_def slots_ok_def list_all_remove_pending
          split: prod.splits option.splits)
next
  case Timer
  with assms show ?thesis by (auto simp: step_def slots_ok_def split: if_splits)
next
  case Iterate
  with assms show ?thesis by (auto simp: step_def slots_ok_retryQueue_step split: if_splits)
next
  case After
  with assms show ?thesis
    by (auto simp: step_def after_loop_def Let_def slots_ok_def split: if_splits)
next
  case Reset
  with assms show ?thesis
    by (auto simp: step_def resetQueue_def Let_def slots_ok_def list_all_iff)
qed

lemma run_slots_ok: "slots_ok s \<Longrightarrow> run s2n evs s = Some s' \<Longrightarrow> slots_ok s'"
  by (induction evs arbitrary: s) (auto split: option.splits dest: step_slots_ok)

lemma retryQueue_step_Cons:
  assumes "queue s = e # rest" and "startTime e \<noteq> Undefined" and "lastTime e \<noteq> Undefined"
  shows "retryQueue_step s2n s =
     (if js_ge (js_sub (ToNumber s2n (Date_now s)) (ToNumber s2n (startTime e))) (Fin 60000)
      then (if is_function (last (args e)) \<and> args e \<noteq> []
            then s\<lparr>queue := rest, invoked := invoked s @
                   [\<lparr>by_call = fn e, callee = last (args e), cb_err = Some (err e), cb_results = []\<rparr>]\<rparr>
            else s\<lparr>queue := rest\<rparr>)
      else if js_ge (js_sub (ToNumber s2n (Date_now s)) (ToNumber s2n (lastTime e)))
                (delay s2n (startTime e) (lastTime e))
      then attempt (fn e) (args e @ [startTime e]) (s\<lparr>queue := rest\<rparr>)
      else s\<lparr>queue := rest @ [e\<lparr>lastTime := Date_now s\<rparr>]\<rparr>)"
  using assms by (auto simp: retryQueue_step_def Let_def Date_now_def)

lemma step_logs_exhaustion:
  assumes "slots_ok s" and "step s2n ev s = Some s'" and "invoked s' = invoked s @ [c]"
    and "cb_err c = Some x" and "is_exhaustion x"
  shows "ev = Iterate \<and> phase s = Draining \<and>
         (\<exists>e rest. queue s = e # rest \<and> queue s' = rest \<and> pending s' = pending s \<and>
            c = \<lparr>by_call = fn e, callee = last (args e), cb_err = Some (err e), cb_results = []\<rparr> \<and>
            is_function (last (args e)) \<and>
            js_ge (js_sub (ToNumber s2n (Date_now s)) (ToNumber s2n (startTime e))) (Fin 60000))"
proof (cases ev)
  case (Tick d)
  with assms show ?thesis by (auto simp: step_def)
next
  case (Call argv)
  with assms show ?thesis by (auto simp: step_def wrapWithRetry_def attempt_def Let_def)
next
  case (Done j e r)
  with assms show ?thesis
    by (auto simp: step_def attempt_callback_def enqueue_def
          split: option.splits if_splits prod.splits)
next
  case Timer
  with assms show ?thesis by (auto simp: step_def split: if_splits)
next
  case Iterate
  with assms(2) have ph: "phase s = Draining" and s': "s' = retryQueue_step s2n s"
    by (auto simp: step_def split: if_splits)
  show ?thesis
  proof (cases "queue s")
    case Nil
    with assms(3) s' show ?thesis by (simp add: retryQueue_step_def)
  next
    case (Cons e rest)
    with assms(1) have e: "startTime e \<noteq> Undefined" "lastTime e \<noteq> Undefined"
      by (simp_all add: slots_ok_def)
    from assms(3) show ?thesis
      unfolding s' retryQueue_step_Cons [OF Cons e] using Iterate ph Cons
      by (auto simp: attempt_def Let_def split: if_splits)
  qed
next
  case After
  with assms show ?thesis
    by (auto simp: step_def after_loop_def Let_def split: if_splits)
next
  case Reset
  with assms show ?thesis by (auto simp: step_def resetQueue_def Let_def)
qed


lemmas retry_defs = step_def wrapWithRetry_def attempt_def attempt_callback_def enqueue_def
  scheduleRetry_def retryQueue_step_def after_loop_def resetQueue_def delay_def Date_now_def
  init_def is_exhaustion_def EMFILE_def not_numeric_def Let_def

lemma map_of_remove_pending: "j \<noteq> k \<Longrightarrow> map_of (remove_pending j ps) k = map_of ps k"
  by (induction ps) auto

lemma pending_attempt_callback [simp]: "pending (attempt_callback k st e r s) = pending s"
  by (auto simp: attempt_callback_def enqueue_def split: prod.splits option.splits)

lemma map_of_append_Some: "map_of ps k = Some v \<Longrightarrow> map_of (ps @ qs) k = Some v"
  by (simp add: map_add_Some_iff)

lemma pending_retryQueue_step:
  "\<exists>l. pending (retryQueue_step s2n s) = pending s @ l"
  by (auto simp: retryQueue_step_def attempt_def Let_def split: list.splits)

lemma step_pending_persists:
  assumes "map_of (pending s) k = Some st" and "step s2n ev s = Some s'"
    and "case ev of Done j e r \<Rightarrow> j \<noteq> k | _ \<Rightarrow> True"
  shows "map_of (pending s') k = Some st"
proof (cases ev)
  case (Done j e r)
  with assms show ?thesis
    by (auto simp: step_def map_of_remove_pending split: option.splits if_splits)
next
  case Iterate
  with assms pending_retryQueue_step [of s2n s] show ?thesis
    by (auto simp: step_def map_of_append_Some split: if_splits)
next
  case (Call argv)
  with assms show ?thesis
    by (auto simp: step_def wrapWithRetry_def attempt_def Let_def map_of_append_Some)
qed (use assms in \<open>auto simp: step_def after_loop_def resetQueue_def Let_def split: if_splits\<close>)

lemma run_pending_persists:
  "map_of (pending s) k = Some st \<Longrightarrow> run s2n evs s = Some s' \<Longrightarrow> no_completion_of k evs \<Longrightarrow>
   map_of (pending s') k = Some st"
proof (induction evs arbitrary: s)
  case Nil
  then show ?case by simp
next
  case (Cons ev evs)
  then obtain s1 where 1: "step s2n ev s = Some s1" and 2: "run s2n evs s1 = Some s'"
    by (auto split: option.splits)
  from Cons.prems(3) have a: "case ev of Done j e r \<Rightarrow> j \<noteq> k | _ \<Rightarrow> True"
    and b: "no_completion_of k evs" by (simp_all add: no_completion_of_def)
  from Cons.IH [OF step_pending_persists [OF Cons.prems(1) 1 a] 2 b] show ?case .
qed

lemma filter_empty_map_of: "filter (\<lambda>p. fst p = k) ps = [] \<Longrightarrow> map_of ps k = None"
  by (induction ps) (auto split: if_splits)

lemma first_failure_enqueues:
  assumes ok: "tokens_ok s"
    and call: "step s2n (Call argv) s = Some s1"
    and mid: "run s2n evs' s1 = Some s2"
    and none: "no_completion_of (length (closures s)) evs'"
    and fail: "step s2n (Done (length (closures s)) (Some x) r) s2 = Some s3"
    and x: "is_exhaustion x"
  shows "queue s3 = queue s2 @
           [\<lparr>fn = length (closures s),
             args = (if argv \<noteq> [] \<and> is_function (last argv) then argv else argv @ [Undefined]),
             err = x, startTime = Date_now s, lastTime = Date_now s2\<rparr>]"
proof -
  let ?k = "length (closures s)"
  from ok have "tokens ?k s \<le> (if ?k < length (closures s) then 1 else 0)"
    unfolding tokens_ok_def by (rule allE)
  then have "tokens ?k s = 0" by simp
  then have "map_of (pending s) ?k = None" by (simp add: tokens_def filter_empty_map_of)
  with call have p1: "map_of (pending s1) ?k = Some (Date_now s)"
    by (auto simp: step_def wrapWithRetry_def attempt_def Let_def Date_now_def map_add_def)
  from call have c1: "?k < length (closures s1)"
    and c1': "closures s1 ! ?k =
       (if argv \<noteq> [] \<and> is_function (last argv) then (butlast argv, last argv) else (argv, Undefined))"
    by (auto simp: step_def wrapWithRetry_def attempt_def Let_def)
  from run_closures_nth [OF mid c1] c1'
  have c2: "closures s2 ! ?k =
       (if argv \<noteq> [] \<and> is_function (last argv) then (butlast argv, last argv) else (argv, Undefined))"
    by simp
  from run_pending_persists [OF p1 mid none] have p2: "map_of (pending s2) ?k = Some (Date_now s)" .
  from fail p2 c2 x show ?thesis
    by (auto simp: step_def attempt_callback_def enqueue_def Date_now_def split: if_splits)
qed

text \<open>
  C1, as amended. In every reachable state: (1) a step of the system invokes a callback
  with a resource-exhaustion error only if it is an iteration of the drain loop whose head
  entry satisfies \<open>now - startTime >= 60000\<close>; the callback gets the error recorded in
  that entry, the entry is dropped, nothing is retried, and this is the only invocation of
  that call's callback; (2) conversely such an iteration does invoke the callback of the
  head entry; (3) the entry enqueued by the first failure of a call carries in
  \<open>startTime\<close> the clock reading of the moment the wrapped function was called, that is
  of the start of the first attempt, and in \<open>lastTime\<close> the later reading of the moment
  of the failure.
\<close>

theorem abandoned_only_after_deadline:
  assumes "run s2n evs init = Some s"
  shows
    "(\<forall>ev s' c x.
        step s2n ev s = Some s' \<and> invoked s' = invoked s @ [c] \<and> cb_err c = Some x \<and> is_exhaustion x \<longrightarrow>
        ev = Iterate \<and> phase s = Draining \<and> completions_of (by_call c) s' = [c] \<and>
        (\<exists>e rest. queue s = e # rest \<and> queue s' = rest \<and> pending s' = pending s \<and>
           c = \<lparr>by_call = fn e, callee = last (args e), cb_err = Some (err e), cb_results = []\<rparr> \<and>
           js_ge (js_sub (ToNumber s2n (Date_now s)) (ToNumber s2n (startTime e))) (Fin 60000))) \<and>
     (\<forall>e rest.
        phase s = Draining \<and> queue s = e # rest \<and> args e \<noteq> [] \<and> is_function (last (args e)) \<and>
        js_ge (js_sub (ToNumber s2n (Date_now s)) (ToNumber s2n (startTime e))) (Fin 60000) \<longrightarrow>
        (\<exists>s'. step s2n Iterate s = Some s' \<and> queue s' = rest \<and>
           invoked s' = invoked s @
             [\<lparr>by_call = fn e, callee = last (args e), cb_err = Some (err e), cb_results = []\<rparr>])) \<and>
     (\<forall>argv s1 evs' s2 x r s3.
        step s2n (Call argv) s = Some s1 \<and> run s2n evs' s1 = Some s2 \<and>
        no_completion_of (length (closures s)) evs' \<and>
        step s2n (Done (length (closures s)) (Some x) r) s2 = Some s3 \<and> is_exhaustion x \<longrightarrow>
        queue s3 = queue s2 @
           [\<lparr>fn = length (closures s),
             args = (if argv \<noteq> [] \<and> is_function (last argv) then argv else argv @ [Undefined]),
             err = x, startTime = Date_now s, lastTime = Date_now s2\<rparr>])"
proof (intro conjI allI impI)
  fix ev s' c x
  assume a: "step s2n ev s = Some s' \<and> invoked s' = invoked s @ [c] \<and> cb_err c = Some x \<and> is_exhaustion x"
  from run_slots_ok [OF slots_ok_init assms] have so: "slots_ok s" .
  from step_logs_exhaustion [OF so, of s2n ev s' c x] a
  have l: "ev = Iterate \<and> phase s = Draining \<and>
         (\<exists>e rest. queue s = e # rest \<and> queue s' = rest \<and> pending s' = pending s \<and>
            c = \<lparr>by_call = fn e, callee = last (args e), cb_err = Some (err e), cb_results = []\<rparr> \<and>
            is_function (last (args e)) \<and>
            js_ge (js_sub (ToNumber s2n (Date_now s)) (ToNumber s2n (startTime e))) (Fin 60000))"
    by blast
  from l show "ev = Iterate" "phase s = Draining" by blast+
  from l show "\<exists>e rest. queue s = e # rest \<and> queue s' = rest \<and> pending s' = pending s \<and>
           c = \<lparr>by_call = fn e, callee = last (args e), cb_err = Some (err e), cb_results = []\<rparr> \<and>
           js_ge (js_sub (ToNumber s2n (Date_now s)) (ToNumber s2n (startTime e))) (Fin 60000)"
    by blast
  have "tokens_ok s'" using run_tokens_ok [OF tokens_ok_init assms] a by (blast intro: step_tokens_ok)
  from tokens_ok_completed_now [OF this, of "invoked s" c "by_call c"] a
  show "completions_of (by_call c) s' = [c]" by simp
next
  fix e rest
  assume a: "phase s = Draining \<and> queue s = e # rest \<and> args e \<noteq> [] \<and> is_function (last (args e)) \<and>
        js_ge (js_sub (ToNumber s2n (Date_now s)) (ToNumber s2n (startTime e))) (Fin 60000)"
  from run_slots_ok [OF slots_ok_init assms] a have e: "startTime e \<noteq> Undefined" "lastTime e \<noteq> Undefined"
    by (simp_all add: slots_ok_def)
  from a have q: "queue s = e # rest" by simp
  show "\<exists>s'. step s2n Iterate s = Some s' \<and> queue s' = rest \<and>
           invoked s' = invoked s @
             [\<lparr>by_call = fn e, callee = last (args e), cb_err = Some (err e), cb_results = []\<rparr>]"
    using a by (simp add: step_def retryQueue_step_Cons [OF q e])
next
  fix argv s1 evs' s2 x r s3
  assume a: "step s2n (Call argv) s = Some s1 \<and> run s2n evs' s1 = Some s2 \<and>
        no_completion_of (length (closures s)) evs' \<and>
        step s2n (Done (length (closures s)) (Some x) r) s2 = Some s3 \<and> is_exhaustion x"
  from first_failure_enqueues [OF run_tokens_ok [OF tokens_ok_init assms], of s2n argv s1 evs' s2 x r s3] a
  show "queue s3 = queue s2 @
           [\<lparr>fn = length (closures s),
             args = (if argv \<noteq> [] \<and> is_function (last argv) then argv else argv @ [Undefined]),
             err = x, startTime = Date_now s, lastTime = Date_now s2\<rparr>]"
    by blast
qed


theorem abandoned_only_after_deadline_witness:
  "\<exists>s s' s1 s2 s3.
     run not_numeric
       [Call [String ''/a'', Function 0], Tick 40, Done 0 (Some EMFILE) [], Timer, Iterate, Tick 59960]
       init = Some s \<and>
     phase s = Draining \<and>
     queue s = [\<lparr>fn = 0, args = [String ''/a'', Function 0], err = EMFILE,
                 startTime = Number (Fin 0), lastTime = Number (Fin 40)\<rparr>] \<and>
     step not_numeric Iterate s = Some s' \<and> queue s' = [] \<and>
     invoked s' = invoked s @
       [\<lparr>by_call = 0, callee = Function 0, cb_err = Some EMFILE, cb_results = []\<rparr>] \<and>
     is_exhaustion EMFILE \<and>
     completions_of 0 s' =
       [\<lparr>by_call = 0, callee = Function 0, cb_err = Some EMFILE, cb_results = []\<rparr>] \<and>
     step not_numeric (Call [Number (Fin 5), Function 1]) s = Some s1 \<and>
     run not_numeric [Tick 5] s1 = Some s2 \<and> no_completion_of 1 [Tick 5] \<and>
     step not_numeric (Done 1 (Some EMFILE) []) s2 = Some s3 \<and>
     queue s3 = queue s2 @
       [\<lparr>fn = 1, args = [Number (Fin 5), Function 1], err = EMFILE,
         startTime = Number (Fin 60000), lastTime = Number (Fin 60005)\<rparr>]"
proof -
  let ?T = "[Call [String ''/a'', Function 0], Tick 40, Done 0 (Some EMFILE) [], Timer, Iterate, Tick 59960]"
  let ?c = "\<lparr>by_call = 0, callee = Function 0, cb_err = Some EMFILE, cb_results = []\<rparr>"
  let ?e = "\<lparr>fn = 0, args = [String ''/a'', Function 0], err = EMFILE,
                 startTime = Number (Fin 0), lastTime = Number (Fin 40)\<rparr>"
  have "case run not_numeric ?T init of
      None \<Rightarrow> False
    | Some s \<Rightarrow> length (closures s) = 1 \<and> clock s = 60000 \<and> phase s = Draining \<and> queue s = [?e] \<and>
        (case step not_numeric Iterate s of
           None \<Rightarrow> False
         | Some s' \<Rightarrow> invoked s' = invoked s @ [?c]) \<and>
        (case step not_numeric (Call [Number (Fin 5), Function 1]) s of
           None \<Rightarrow> False
         | Some s1 \<Rightarrow>
            (case run not_numeric [Tick 5] s1 of
               None \<Rightarrow> False
             | Some s2 \<Rightarrow> clock s2 = 60005 \<and>
                 (case step not_numeric (Done 1 (Some EMFILE) []) s2 of
                    None \<Rightarrow> False | Some s3 \<Rightarrow> True)))"
    by (simp add: retry_defs no_completion_of_def)
  then obtain s s' s1 s2 s3 where
    1: "run not_numeric ?T init = Some s"
    and 2: "step not_numeric Iterate s = Some s'"
    and 3: "invoked s' = invoked s @ [?c]"
    and 4: "step not_numeric (Call [Number (Fin 5), Function 1]) s = Some s1"
    and 5: "run not_numeric [Tick 5] s1 = Some s2"
    and 6: "step not_numeric (Done 1 (Some EMFILE) []) s2 = Some s3"
    and 7: "length (closures s) = 1" "clock s = 60000" "clock s2 = 60005"
    and 10: "phase s = Draining" "queue s = [?e]"
    by (auto split: option.splits)
  have 8: "is_exhaustion EMFILE" by (simp add: retry_defs no_completion_of_def)
  have 9: "no_completion_of 1 [Tick 5]" by (simp add: retry_defs no_completion_of_def)
  note T = abandoned_only_after_deadline [OF 1]
  from T [THEN conjunct1, rule_format, of Iterate s' ?c EMFILE] 2 3 8
  have A: "completions_of 0 s' = [?c]" by simp
  from T [THEN conjunct2, THEN conjunct1, rule_format, of ?e "[]"] 10 7
  have "\<exists>s''. step not_numeric Iterate s = Some s'' \<and> queue s'' = [] \<and>
          invoked s'' = invoked s @ [?c]"
    by (simp add: Date_now_def)
  with 2 have C: "queue s' = []" by auto
  from T [THEN conjunct2, THEN conjunct2, rule_format, of "[Number (Fin 5), Function 1]" s1 "[Tick 5]" s2 EMFILE "[]" s3]
    4 5 6 7 8 9
  have B: "queue s3 = queue s2 @
       [\<lparr>fn = 1, args = [Number (Fin 5), Function 1], err = EMFILE,
         startTime = Number (Fin 60000), lastTime = Number (Fin 60005)\<rparr>]"
    by (simp add: Date_now_def)
  from 1 2 3 4 5 6 8 9 10 A B C show ?thesis by blast
qed

text \<open>
  C1 as stated fails: the first attempt starts at 0 and fails at 40, where the entry is
  enqueued; the drain loop defers it once, and the iteration at 60000 abandons it with
  the error, 59960 ms after it was enqueued.
\<close>

theorem abandoned_within_60s_of_enqueue_counterexample:
  "map_option queue
     (run not_numeric [Call [String ''/a'', Function 0], Tick 40, Done 0 (Some EMFILE) []] init) =
     Some [\<lparr>fn = 0, args = [String ''/a'', Function 0], err = EMFILE,
            startTime = Number (Fin 0), lastTime = Number (Fin 40)\<rparr>] \<and>
   map_option clock
     (run not_numeric [Call [String ''/a'', Function 0], Tick 40, Done 0 (Some EMFILE) []] init) =
     Some 40 \<and>
   map_option invoked
     (run not_numeric
        [Call [String ''/a'', Function 0], Tick 40, Done 0 (Some EMFILE) [], Timer, Iterate,
         Tick 59960] init) = Some [] \<and>
   map_option clock
     (run not_numeric
        [Call [String ''/a'', Function 0], Tick 40, Done 0 (Some EMFILE) [], Timer, Iterate,
         Tick 59960] init) = Some 60000 \<and>
   map_option invoked
     (run not_numeric
        [Call [String ''/a'', Function 0], Tick 40, Done 0 (Some EMFILE) [], Timer, Iterate,
         Tick 59960, Iterate] init) =
     Some [\<lparr>by_call = 0, callee = Function 0, cb_err = Some EMFILE, cb_results = []\<rparr>] \<and>
   (60000 :: int) - 40 < 60000"
  by (simp add: retry_defs)

subsection \<open>The drain pass\<close>

lemma phase_attempt [simp]: "phase (attempt k argv s) = phase s"
  by (simp add: attempt_def Let_def)

lemma phase_attempt_callback [simp]: "phase (attempt_callback k st e r s) = phase s"
  by (auto simp: attempt_callback_def enqueue_def split: prod.splits option.splits)

lemma step_leaves_Draining:
  assumes "step s2n ev s = Some s'" and "phase s = Draining" and "phase s' \<noteq> Draining"
  shows "ev = Iterate \<and> queue s = [] \<and> phase s' = Finishing"
proof (cases ev)
  case Iterate
  with assms show ?thesis
    by (auto simp: step_def retryQueue_step_def Let_def split: if_splits list.splits)
qed (use assms in \<open>auto simp: step_def wrapWithRetry_def resetQueue_def Let_def
        split: if_splits option.splits\<close>)

text \<open>
  C2, as amended. One iteration of the drain loop with an empty queue ends the pass. With
  a non-empty queue it takes the head entry and abandons it (deadline passed), retries it
  (due) or re-appends it to the tail with \<open>lastTime\<close> refreshed, and the pass goes on: a
  deferred entry is examined again in the same pass. No step ends a running pass except
  an iteration that finds the queue empty. After the pass the timer callback schedules a
  further pass if the queue is not empty.
\<close>

theorem drain_pass_runs_until_queue_empty:
  "(queue s = [] \<longrightarrow> retryQueue_step s2n s = s\<lparr>phase := Finishing\<rparr>) \<and>
   (\<forall>e rest. queue s = e # rest \<and> startTime e \<noteq> Undefined \<and> lastTime e \<noteq> Undefined \<longrightarrow>
      phase (retryQueue_step s2n s) = phase s \<and>
      retryQueue_step s2n s =
        (if js_ge (js_sub (ToNumber s2n (Date_now s)) (ToNumber s2n (startTime e))) (Fin 60000)
         then (if is_function (last (args e)) \<and> args e \<noteq> []
               then s\<lparr>queue := rest, invoked := invoked s @
                      [\<lparr>by_call = fn e, callee = last (args e), cb_err = Some (err e), cb_results = []\<rparr>]\<rparr>
               else s\<lparr>queue := rest\<rparr>)
         else if js_ge (js_sub (ToNumber s2n (Date_now s)) (ToNumber s2n (lastTime e)))
                   (delay s2n (startTime e) (lastTime e))
         then attempt (fn e) (args e @ [startTime e]) (s\<lparr>queue := rest\<rparr>)
         else s\<lparr>queue := rest @ [e\<lparr>lastTime := Date_now s\<rparr>]\<rparr>)) \<and>
   (\<forall>ev s'. step s2n ev s = Some s' \<and> phase s = Draining \<and> phase s' \<noteq> Draining \<longrightarrow>
      ev = Iterate \<and> queue s = [] \<and> phase s' = Finishing) \<and>
   phase (after_loop s) = Idle \<and> queue (after_loop s) = queue s \<and>
   retryTimer (after_loop s) = (retryTimer s \<or> queue s \<noteq> [])"
proof (intro conjI allI impI)
  assume "queue s = []"
  then show "retryQueue_step s2n s = s\<lparr>phase := Finishing\<rparr>" by (simp add: retryQueue_step_def)
next
  fix e rest
  assume a: "queue s = e # rest \<and> startTime e \<noteq> Undefined \<and> lastTime e \<noteq> Undefined"
  then have q: "queue s = e # rest" and e: "startTime e \<noteq> Undefined" "lastTime e \<noteq> Undefined"
    by simp_all
  show "retryQueue_step s2n s =
        (if js_ge (js_sub (ToNumber s2n (Date_now s)) (ToNumber s2n (startTime e))) (Fin 60000)
         then (if is_function (last (args e)) \<and> args e \<noteq> []
               then s\<lparr>queue := rest, invoked := invoked s @
                      [\<lparr>by_call = fn e, callee = last (args e), cb_err = Some (err e), cb_results = []\<rparr>]\<rparr>
               else s\<lparr>queue := rest\<rparr>)
         else if js_ge (js_sub (ToNumber s2n (Date_now s)) (ToNumber s2n (lastTime e)))
                   (delay s2n (startTime e) (lastTime e))
         then attempt (fn e) (args e @ [startTime e]) (s\<lparr>queue := rest\<rparr>)
         else s\<lparr>queue := rest @ [e\<lparr>lastTime := Date_now s\<rparr>]\<rparr>)"
    by (rule retryQueue_step_Cons [OF q e])
  show "phase (retryQueue_step s2n s) = phase s"
    unfolding retryQueue_step_Cons [OF q e] by simp
next
  fix ev s'
  assume "step s2n ev s = Some s' \<and> phase s = Draining \<and> phase s' \<noteq> Draining"
  with step_leaves_Draining [of s2n ev s s']
  show "ev = Iterate" "queue s = []" "phase s' = Finishing" by blast+
qed (auto simp: after_loop_def Let_def)

theorem drain_pass_runs_until_queue_empty_witness:
  "\<exists>s s1 s2 s3.
     run not_numeric [Call [String ''/a'', Function 0], Done 0 (Some EMFILE) [], Timer] init = Some s \<and>
     queue s = [\<lparr>fn = 0, args = [String ''/a'', Function 0], err = EMFILE,
                 startTime = Number (Fin 0), lastTime = Number (Fin 0)\<rparr>] \<and>
     retryQueue_step not_numeric s =
       s\<lparr>queue := [\<lparr>fn = 0, args = [String ''/a'', Function 0], err = EMFILE,
                     startTime = Number (Fin 0), lastTime = Number (Fin 0)\<rparr>]\<rparr> \<and>
     phase (retryQueue_step not_numeric s) = Draining \<and>
     run not_numeric [Tick 2, Iterate] s = Some s1 \<and> phase s1 = Draining \<and> queue s1 = [] \<and>
     pending s1 = [(0, String ''/a'')] \<and>
     retryQueue_step not_numeric s1 = s1\<lparr>phase := Finishing\<rparr> \<and>
     step not_numeric Iterate s1 = Some s2 \<and> phase s2 = Finishing \<and>
     step not_numeric After s2 = Some s3 \<and> phase s3 = Idle \<and> retryTimer s3 = False"
proof -
  let ?e = "\<lparr>fn = 0, args = [String ''/a'', Function 0], err = EMFILE,
                 startTime = Number (Fin 0), lastTime = Number (Fin 0)\<rparr>"
  have "case run not_numeric [Call [String ''/a'', Function 0], Done 0 (Some EMFILE) [], Timer] init of
      None \<Rightarrow> False
    | Some s \<Rightarrow> queue s = [?e] \<and> clock s = 0 \<and> phase s = Draining \<and>
        (case run not_numeric [Tick 2, Iterate] s of
           None \<Rightarrow> False
         | Some s1 \<Rightarrow> phase s1 = Draining \<and> queue s1 = [] \<and> pending s1 = [(0, String ''/a'')] \<and>
             (case step not_numeric Iterate s1 of
                None \<Rightarrow> False
              | Some s2 \<Rightarrow> phase s2 \<noteq> Draining \<and> retryTimer s2 = False \<and>
                 (case step not_numeric After s2 of None \<Rightarrow> False | Some s3 \<Rightarrow> s3 = after_loop s2)))"
    by (simp add: retry_defs)
  then obtain s s1 s2 s3 where
    1: "run not_numeric [Call [String ''/a'', Function 0], Done 0 (Some EMFILE) [], Timer] init = Some s"
    and 2: "queue s = [?e]" "clock s = 0" "phase s = Draining"
    and 3: "run not_numeric [Tick 2, Iterate] s = Some s1"
    and 4: "phase s1 = Draining" "queue s1 = []" "pending s1 = [(0, String ''/a'')]"
    and 5: "step not_numeric Iterate s1 = Some s2" "phase s2 \<noteq> Draining" "retryTimer s2 = False"
    and 6: "step not_numeric After s2 = Some s3" "s3 = after_loop s2"
    by (auto split: option.splits)
  note A = drain_pass_runs_until_queue_empty [of s not_numeric, THEN conjunct2, THEN conjunct1,
      rule_format, of ?e "[]"]
  from A 2 have a: "retryQueue_step not_numeric s = s\<lparr>queue := [?e]\<rparr>"
    "phase (retryQueue_step not_numeric s) = Draining"
    by (simp_all add: Date_now_def delay_def)
  note B = drain_pass_runs_until_queue_empty [of s1 not_numeric]
  from B 4 have b: "retryQueue_step not_numeric s1 = s1\<lparr>phase := Finishing\<rparr>" by blast
  from B [THEN conjunct2, THEN conjunct2, THEN conjunct1, rule_format, of Iterate s2] 4 5
  have c: "phase s2 = Finishing" by blast
  from 5 have "queue s2 = []" using 4 by (auto simp: step_def b)
  with drain_pass_runs_until_queue_empty [of s2 not_numeric] 5 6
  have d: "phase s3 = Idle" "retryTimer s3 = False" by simp_all
  from 1 2 3 4 5 6 a b c d show ?thesis by blast
qed

text \<open>
  C2 as stated fails: with one entry that is not due, the first iteration defers it and
  the pass does not complete; one millisecond later the same pass handles the same entry a
  second time and still goes on.
\<close>

theorem drain_pass_single_scan_counterexample:
  "map_option phase
     (run not_numeric [Call [String ''/a'', Function 0], Done 0 (Some EMFILE) [], Timer] init) =
     Some Draining \<and>
   map_option queue
     (run not_numeric [Call [String ''/a'', Function 0], Done 0 (Some EMFILE) [], Timer] init) =
     Some [\<lparr>fn = 0, args = [String ''/a'', Function 0], err = EMFILE,
            startTime = Number (Fin 0), lastTime = Number (Fin 0)\<rparr>] \<and>
   map_option phase
     (run not_numeric [Call [String ''/a'', Function 0], Done 0 (Some EMFILE) [], Timer, Iterate]
        init) = Some Draining \<and>
   map_option queue
     (run not_numeric [Call [String ''/a'', Function 0], Done 0 (Some EMFILE) [], Timer, Iterate]
        init) =
     Some [\<lparr>fn = 0, args = [String ''/a'', Function 0], err = EMFILE,
            startTime = Number (Fin 0), lastTime = Number (Fin 0)\<rparr>] \<and>
   map_option phase
     (run not_numeric
        [Call [String ''/a'', Function 0], Done 0 (Some EMFILE) [], Timer, Iterate, Tick 1, Iterate]
        init) = Some Draining \<and>
   map_option queue
     (run not_numeric
        [Call [String ''/a'', Function 0], Done 0 (Some EMFILE) [], Timer, Iterate, Tick 1, Iterate]
        init) =
     Some [\<lparr>fn = 0, args = [String ''/a'', Function 0], err = EMFILE,
            startTime = Number (Fin 0), lastTime = Number (Fin 1)\<rparr>] \<and>
   map_option invoked
     (run not_numeric
        [Call [String ''/a'', Function 0], Done 0 (Some EMFILE) [], Timer, Iterate, Tick 1, Iterate]
        init) = Some []"
  by (simp add: retry_defs)

subsection \<open>The backoff threshold\<close>

lemma delay_nondecreasing:
  "b \<le> b' \<Longrightarrow>
   js_ge (delay s2n (Number (Fin a)) (Number (Fin b'))) (delay s2n (Number (Fin a)) (Number (Fin b)))"
  by (auto simp: delay_def Let_def min_def max_def)

lemma delay_capped: "js_ge (Fin 100) (delay s2n (Number (Fin a)) (Number (Fin b)))"
  by (auto simp: delay_def Let_def min_def max_def)

text \<open>
  C4, evaluated on a call \<open>wrapped('/a', cb)\<close> whose attempts fail with \<open>EMFILE\<close>. The
  first attempt starts at 1000000 and fails at 1000050: the threshold of the entry is 60.
  The queue retries it with \<open>fn(...args, startTime)\<close>, but \<open>attempt\<close> takes \<open>startTime\<close>
  as its first parameter, so the retry is entered with \<open>startTime = '/a'\<close>. When it fails
  the new entry has \<open>startTime = '/a'\<close>, its threshold is \<open>NaN\<close>, which is not at least
  60, and later iterations, 100 and 200 seconds on, neither retry nor abandon the entry.
\<close>

theorem start_time_lost_on_retry:
  "map_option (thresholds not_numeric)
     (run not_numeric
        [Tick 1000000, Call [String ''/a'', Function 0], Tick 50, Done 0 (Some EMFILE) []] init) =
     Some [Fin 60] \<and>
   map_option pending
     (run not_numeric
        [Tick 1000000, Call [String ''/a'', Function 0], Tick 50, Done 0 (Some EMFILE) [],
         Tick 60, Timer, Iterate, Iterate, After] init) = Some [(0, String ''/a'')] \<and>
   map_option start_slots
     (run not_numeric
        [Tick 1000000, Call [String ''/a'', Function 0], Tick 50, Done 0 (Some EMFILE) [],
         Tick 60, Timer, Iterate, Iterate, After, Tick 50, Done 0 (Some EMFILE) [], Timer] init) =
     Some [String ''/a''] \<and>
   map_option (thresholds not_numeric)
     (run not_numeric
        [Tick 1000000, Call [String ''/a'', Function 0], Tick 50, Done 0 (Some EMFILE) [],
         Tick 60, Timer, Iterate, Iterate, After, Tick 50, Done 0 (Some EMFILE) [], Timer] init) =
     Some [NaN] \<and>
   \<not> js_ge NaN (Fin 60) \<and>
   map_option start_slots
     (run not_numeric
        [Tick 1000000, Call [String ''/a'', Function 0], Tick 50, Done 0 (Some EMFILE) [],
         Tick 60, Timer, Iterate, Iterate, After, Tick 50, Done 0 (Some EMFILE) [], Timer,
         Tick 100000, Iterate, Tick 100000, Iterate] init) = Some [String ''/a''] \<and>
   map_option phase
     (run not_numeric
        [Tick 1000000, Call [String ''/a'', Function 0], Tick 50, Done 0 (Some EMFILE) [],
         Tick 60, Timer, Iterate, Iterate, After, Tick 50, Done 0 (Some EMFILE) [], Timer,
         Tick 100000, Iterate, Tick 100000, Iterate] init) = Some Draining \<and>
   map_option invoked
     (run not_numeric
        [Tick 1000000, Call [String ''/a'', Function 0], Tick 50, Done 0 (Some EMFILE) [],
         Tick 60, Timer, Iterate, Iterate, After, Tick 50, Done 0 (Some EMFILE) [], Timer,
         Tick 100000, Iterate, Tick 100000, Iterate] init) = Some []"
  by (simp add: retry_defs thresholds_def start_slots_def)

section \<open>Properties of the copy engine\<close>

lemma node_issue [simp]: "node (issue w fs) p = node fs p"
  by (simp add: node_def issue_def)

lemma nodes_issue [simp]: "nodes (issue w fs) = nodes fs"
  by (simp add: issue_def)

lemma journal_issue [simp]: "journal (issue w fs) = journal fs @ [w]"
  by (simp add: issue_def)

lemma journal_put [simp]: "journal (put p i fs) = journal fs"
  by (simp add: put_def)

lemma node_put: "p \<noteq> [] \<Longrightarrow> node (put p i fs) q = (if q = p then Some i else node fs q)"
  by (simp add: node_def put_def update_conv')

lemma node_delete:
  "node (fs\<lparr>nodes := AList.delete p (nodes fs)\<rparr>) q = (if q = p \<and> p \<noteq> [] then None else node fs q)"
  by (auto simp: node_def delete_conv')

lemma realpath_no_link:
  "(case node fs p of Some i \<Rightarrow> kind i \<noteq> SymbolicLink | None \<Rightarrow> True) \<Longrightarrow> realpath n env fs p = Some p"
  by (cases n) (auto split: option.splits)

lemma has_parent_issue [simp]: "has_parent (issue w fs) p = has_parent fs p"
  by (simp add: has_parent_def)

lemma has_parent_nonempty: "has_parent fs p \<Longrightarrow> p \<noteq> []"
  by (simp add: has_parent_def)

lemma butlast_neq: "p \<noteq> [] \<Longrightarrow> butlast p \<noteq> p"
  by (metis length_butlast diff_less length_greater_0_conv less_numeral_extra(1) nat_neq_iff)

lemma mayCopyFile_refuses:
  "overwrite opts \<noteq> Some True \<Longrightarrow> errorOnExist opts \<Longrightarrow>
   mayCopyFile env srcStat src dest opts fs = (Inl (AlreadyExists dest), fs)"
  by (simp add: mayCopyFile_def fs_throw_def)

lemma mayCopyFile_skips:
  "overwrite opts \<noteq> Some True \<Longrightarrow> \<not> errorOnExist opts \<Longrightarrow>
   mayCopyFile env srcStat src dest opts fs = (Inr (), fs)"
  by (simp add: mayCopyFile_def fs_return_def)

lemma unlinkSync_file:
  assumes "node fs dest = Some di" and "kind di \<noteq> Directory"
  shows "unlinkSync dest fs = (Inr (), (issue (Unlink dest) fs)\<lparr>nodes := AList.delete dest (nodes fs)\<rparr>)"
  using assms by (simp add: unlinkSync_def Let_def)

lemma copyFileSync_fresh:
  assumes "node fs src = Some si" and "kind si \<noteq> SymbolicLink" and "kind si \<noteq> Directory"
    and "node fs dest = None" and "has_parent fs dest"
  shows "copyFileSync env src dest fs =
     (Inr (), put dest \<lparr>kind = RegularFile, mode = mode si, content = content si, link = [],
                         atime = time_now env, mtime = time_now env\<rparr> (issue (CopyFile src dest) fs))"
  using assms
  by (simp add: copyFileSync_def Let_def statSync_def realpath_no_link)

lemma chmodSync_plain:
  assumes "node fs p = Some i" and "kind i \<noteq> SymbolicLink" and "p \<noteq> []"
  shows "chmodSync env p m fs = (Inr (), put p (i\<lparr>mode := m\<rparr>) (issue (Chmod p m) fs))"
  using assms by (simp add: chmodSync_def Let_def realpath_no_link)

lemma utimesMillisSync_plain:
  assumes "node fs p = Some i" and "kind i \<noteq> SymbolicLink" and "p \<noteq> []"
  shows "utimesMillisSync env p a m fs = (Inr (), put p (i\<lparr>atime := a, mtime := m\<rparr>) (issue (Utimes p a m) fs))"
  using assms by (simp add: utimesMillisSync_def Let_def realpath_no_link)

lemma statSync_plain:
  assumes "node fs p = Some i" and "kind i \<noteq> SymbolicLink"
  shows "statSync env p fs = Inr i"
  using assms by (simp add: statSync_def realpath_no_link)

lemma copyFile_fresh:
  assumes src: "node fs src = Some si" "kind si \<noteq> SymbolicLink" "kind si \<noteq> Directory"
    and dest: "node fs dest = None" "has_parent fs dest"
    and ne: "src \<noteq> dest"
  shows "\<exists>fs'. copyFile env si src dest opts fs = (Inr (), fs') \<and>
     node fs' dest = Some \<lparr>kind = RegularFile, mode = mode si, content = content si, link = [],
        atime = (if preserveTimestamps opts then atime si else time_now env),
        mtime = (if preserveTimestamps opts then mtime si else time_now env)\<rparr> \<and>
     (\<forall>p. p \<noteq> dest \<longrightarrow> node fs' p = node fs p) \<and>
     journal fs' = journal fs @ CopyFile src dest #
        (if preserveTimestamps opts
         then (if fileIsNotWritable (mode si) then [Chmod dest (mode si OR 128)] else []) @
              [Utimes dest (atime si) (mtime si)]
         else []) @ [Chmod dest (mode si)]"
proof -
  from dest have d: "dest \<noteq> []" by (simp add: has_parent_nonempty)
  let ?i0 = "\<lparr>kind = RegularFile, mode = mode si, content = content si, link = [],
                         atime = time_now env, mtime = time_now env\<rparr>"
  let ?fs1 = "put dest ?i0 (issue (CopyFile src dest) fs)"
  have 1: "copyFileSync env src dest fs = (Inr (), ?fs1)"
    by (rule copyFileSync_fresh [OF src dest])
  have n1: "node ?fs1 dest = Some ?i0" by (simp add: node_put d)
  have s1: "node ?fs1 src = Some si" using ne src by (simp add: node_put d)
  show ?thesis
  proof (cases "preserveTimestamps opts")
    case False
    have "chmodSync env dest (mode si) ?fs1 = (Inr (), put dest (?i0\<lparr>mode := mode si\<rparr>) (issue (Chmod dest (mode si)) ?fs1))"
      by (rule chmodSync_plain [OF n1 _ d]) simp
    with 1 False show ?thesis
      by (simp add: copyFile_def fs_bind_def fs_return_def setDestMode_def node_put d)
  next
    case True
    show ?thesis
    proof (cases "fileIsNotWritable (mode si)")
      case nw: True
      let ?i2 = "?i0\<lparr>mode := mode si OR 128\<rparr>"
      let ?fs2 = "put dest ?i2 (issue (Chmod dest (mode si OR 128)) ?fs1)"
      have 2: "chmodSync env dest (mode si OR 128) ?fs1 = (Inr (), ?fs2)"
        by (rule chmodSync_plain [OF n1 _ d]) simp
      have n2: "node ?fs2 dest = Some ?i2" by (simp add: node_put d)
      have s2: "statSync env src ?fs2 = Inr si"
        by (rule statSync_plain [OF _ src(2)]) (use ne src in \<open>simp add: node_put d\<close>)
      let ?i3 = "?i2\<lparr>atime := atime si, mtime := mtime si\<rparr>"
      let ?fs3 = "put dest ?i3 (issue (Utimes dest (atime si) (mtime si)) ?fs2)"
      have 3: "utimesMillisSync env dest (atime si) (mtime si) ?fs2 = (Inr (), ?fs3)"
        by (rule utimesMillisSync_plain [OF n2 _ d]) simp
      have n3: "node ?fs3 dest = Some ?i3" by (simp add: node_put d)
      have 4: "chmodSync env dest (mode si) ?fs3 =
          (Inr (), put dest (?i3\<lparr>mode := mode si\<rparr>) (issue (Chmod dest (mode si)) ?fs3))"
        by (rule chmodSync_plain [OF n3 _ d]) simp
      from 1 2 s2 3 4 True nw show ?thesis
        by (simp add: copyFile_def fs_bind_def fs_return_def setDestMode_def handleTimestamps_def
              makeFileWritable_def setDestTimestamps_def node_put d)
    next
      case w: False
      have s2: "statSync env src ?fs1 = Inr si"
        by (rule statSync_plain [OF s1 src(2)])
      let ?i3 = "?i0\<lparr>atime := atime si, mtime := mtime si\<rparr>"
      let ?fs3 = "put dest ?i3 (issue (Utimes dest (atime si) (mtime si)) ?fs1)"
      have 3: "utimesMillisSync env dest (atime si) (mtime si) ?fs1 = (Inr (), ?fs3)"
        by (rule utimesMillisSync_plain [OF n1 _ d]) simp
      have n3: "node ?fs3 dest = Some ?i3" by (simp add: node_put d)
      have 4: "chmodSync env dest (mode si) ?fs3 =
          (Inr (), put dest (?i3\<lparr>mode := mode si\<rparr>) (issue (Chmod dest (mode si)) ?fs3))"
        by (rule chmodSync_plain [OF n3 _ d]) simp
      from 1 s2 3 4 True w show ?thesis
        by (simp add: copyFile_def fs_bind_def fs_return_def setDestMode_def handleTimestamps_def
              makeFileWritable_def setDestTimestamps_def node_put d)
    qed
  qed
qed

text \<open>
  C6. A file (regular, character or block device) is copied onto a destination that exists,
  \<open>destStat\<close> being that destination's stats. If \<open>overwrite\<close> is not set and
  \<open>errorOnExist\<close> is, the call raises \<open>AlreadyExists\<close> and the file system, journal
  included, is what it was; if neither is set the call returns and the file system is what
  it was; if \<open>overwrite\<close> is set the engine unlinks the destination and then copies, so
  that, when the destination is not a directory and lies in a directory, the destination
  ends as a regular file with the bytes and the permission bits of the source, every other
  node is untouched, and the journal shows the unlink followed by the copy.
\<close>

theorem existing_destination_policy:
  assumes "destStat = Some ds"
  shows
    "(overwrite opts \<noteq> Some True \<and> errorOnExist opts \<longrightarrow>
        onFile env srcStat destStat src dest opts fs = (Inl (AlreadyExists dest), fs)) \<and>
     (overwrite opts \<noteq> Some True \<and> \<not> errorOnExist opts \<longrightarrow>
        onFile env srcStat destStat src dest opts fs = (Inr (), fs)) \<and>
     (overwrite opts = Some True \<longrightarrow>
        onFile env srcStat destStat src dest opts fs =
          fs_bind (unlinkSync dest) (\<lambda>u. copyFile env srcStat src dest opts) fs) \<and>
     (overwrite opts = Some True \<and> node fs src = Some srcStat \<and>
      (kind srcStat = RegularFile \<or> kind srcStat = CharacterDevice \<or> kind srcStat = BlockDevice) \<and>
      node fs dest = Some ds \<and> kind ds \<noteq> Directory \<and> has_parent fs dest \<and> src \<noteq> dest \<longrightarrow>
        (\<exists>fs'. onFile env srcStat destStat src dest opts fs = (Inr (), fs') \<and>
           node fs' dest =
             Some \<lparr>kind = RegularFile, mode = mode srcStat, content = content srcStat, link = [],
                atime = (if preserveTimestamps opts then atime srcStat else time_now env),
                mtime = (if preserveTimestamps opts then mtime srcStat else time_now env)\<rparr> \<and>
           (\<forall>p. p \<noteq> dest \<longrightarrow> node fs' p = node fs p) \<and>
           journal fs' = journal fs @ Unlink dest # CopyFile src dest #
             (if preserveTimestamps opts
              then (if fileIsNotWritable (mode srcStat) then [Chmod dest (mode srcStat OR 128)] else []) @
                   [Utimes dest (atime srcStat) (mtime srcStat)]
              else []) @ [Chmod dest (mode srcStat)]))"
proof (intro conjI impI)
  assume "overwrite opts \<noteq> Some True \<and> errorOnExist opts"
  with assms show "onFile env srcStat destStat src dest opts fs = (Inl (AlreadyExists dest), fs)"
    by (simp add: onFile_def mayCopyFile_refuses)
next
  assume "overwrite opts \<noteq> Some True \<and> \<not> errorOnExist opts"
  with assms show "onFile env srcStat destStat src dest opts fs = (Inr (), fs)"
    by (simp add: onFile_def mayCopyFile_skips)
next
  assume "overwrite opts = Some True"
  with assms show "onFile env srcStat destStat src dest opts fs =
          fs_bind (unlinkSync dest) (\<lambda>u. copyFile env srcStat src dest opts) fs"
    by (simp add: onFile_def mayCopyFile_def)
next
  assume a: "overwrite opts = Some True \<and> node fs src = Some srcStat \<and>
      (kind srcStat = RegularFile \<or> kind srcStat = CharacterDevice \<or> kind srcStat = BlockDevice) \<and>
      node fs dest = Some ds \<and> kind ds \<noteq> Directory \<and> has_parent fs dest \<and> src \<noteq> dest"
  then have d: "dest \<noteq> []" by (auto dest: has_parent_nonempty)
  let ?fs1 = "(issue (Unlink dest) fs)\<lparr>nodes := AList.delete dest (nodes fs)\<rparr>"
  from a have 1: "unlinkSync dest fs = (Inr (), ?fs1)" by (simp add: unlinkSync_file)
  have n: "\<And>q. node ?fs1 q = (if q = dest then None else node fs q)"
    using d by (auto simp: node_def delete_conv')
  have hp: "has_parent ?fs1 dest"
    using a d by (simp add: has_parent_def n butlast_neq)
  have j: "journal ?fs1 = journal fs @ [Unlink dest]" by simp
  from a have k: "kind srcStat \<noteq> SymbolicLink" "kind srcStat \<noteq> Directory" by auto
  from a have s: "node ?fs1 src = Some srcStat" by (simp add: n)
  from copyFile_fresh [OF s k _ hp, of env opts] a n
  obtain fs' where c: "copyFile env srcStat src dest opts ?fs1 = (Inr (), fs')"
    and c1: "node fs' dest = Some \<lparr>kind = RegularFile, mode = mode srcStat, content = content srcStat, link = [],
        atime = (if preserveTimestamps opts then atime srcStat else time_now env),
        mtime = (if preserveTimestamps opts then mtime srcStat else time_now env)\<rparr>"
    and c2: "\<forall>p. p \<noteq> dest \<longrightarrow> node fs' p = node ?fs1 p"
    and c3: "journal fs' = journal ?fs1 @ CopyFile src dest #
        (if preserveTimestamps opts
         then (if fileIsNotWritable (mode srcStat) then [Chmod dest (mode srcStat OR 128)] else []) @
              [Utimes dest (atime srcStat) (mtime srcStat)]
         else []) @ [Chmod dest (mode srcStat)]"
    by auto
  have "onFile env srcStat destStat src dest opts fs = (Inr (), fs')"
    using assms a 1 c by (simp add: onFile_def mayCopyFile_def fs_bind_def)
  moreover from c2 n have "\<forall>p. p \<noteq> dest \<longrightarrow> node fs' p = node fs p" by simp
  moreover from c3 j have "journal fs' = journal fs @ Unlink dest # CopyFile src dest #
             (if preserveTimestamps opts
              then (if fileIsNotWritable (mode srcStat) then [Chmod dest (mode srcStat OR 128)] else []) @
                   [Utimes dest (atime srcStat) (mtime srcStat)]
              else []) @ [Chmod dest (mode srcStat)]"
    by simp
  ultimately show "\<exists>fs'. onFile env srcStat destStat src dest opts fs = (Inr (), fs') \<and>
           node fs' dest =
             Some \<lparr>kind = RegularFile, mode = mode srcStat, content = content srcStat, link = [],
                atime = (if preserveTimestamps opts then atime srcStat else time_now env),
                mtime = (if preserveTimestamps opts then mtime srcStat else time_now env)\<rparr> \<and>
           (\<forall>p. p \<noteq> dest \<longrightarrow> node fs' p = node fs p) \<and>
           journal fs' = journal fs @ Unlink dest # CopyFile src dest #
             (if preserveTimestamps opts
              then (if fileIsNotWritable (mode srcStat) then [Chmod dest (mode srcStat OR 128)] else []) @
                   [Utimes dest (atime srcStat) (mtime srcStat)]
              else []) @ [Chmod dest (mode srcStat)]"
    using c1 by blast
qed

lemma symlinkSync_fresh:
  assumes "node fs p = None" and "has_parent fs p"
  shows "symlinkSync env t p fs =
     (Inr (), put p \<lparr>kind = SymbolicLink, mode = 511, content = [], link = t,
                     atime = time_now env, mtime = time_now env\<rparr> (issue (Symlink t p) fs))"
  using assms by (simp add: symlinkSync_def Let_def)

lemma readlinkSync_Inr:
  "readlinkSync p fs = Inr t \<Longrightarrow> \<exists>i. node fs p = Some i \<and> kind i = SymbolicLink \<and> link i = t \<and> p \<noteq> []"
  by (auto simp: readlinkSync_def node_def root_def split: option.splits if_splits)

text \<open>
  C7. A symbolic link is copied onto a destination that exists and is a link. The engine
  reads both targets and, when \<open>dereference\<close> is set, resolves each against the working
  directory. It raises \<open>SelfCopy\<close> if the source target contains the destination target,
  else \<open>OverwriteConflict\<close> if the destination target contains the source target, else
  it unlinks the destination and creates it anew pointing at the resolved source target.
\<close>

theorem existing_link_policy:
  assumes "readlinkSync src fs = Inr t" and "destStat = Some ds" and "readlinkSync dest fs = Inr t'"
    and "resolvedSrc = (if dereference opts then resolve_cwd env t else t)"
    and "resolvedDest = (if dereference opts then resolve_cwd env t' else t')"
  shows
    "onLink env destStat src dest opts fs =
       (if isSrcSubdir env resolvedSrc resolvedDest then (Inl (SelfCopy resolvedSrc resolvedDest), fs)
        else if isSrcSubdir env resolvedDest resolvedSrc
        then (Inl (OverwriteConflict resolvedDest resolvedSrc), fs)
        else copyLink env resolvedSrc dest fs) \<and>
     copyLink env resolvedSrc dest fs =
       fs_bind (unlinkSync dest) (\<lambda>u. symlinkSync env resolvedSrc dest) fs \<and>
     (has_parent fs dest \<longrightarrow>
        (\<exists>fs'. copyLink env resolvedSrc dest fs = (Inr (), fs') \<and>
           node fs' dest = Some \<lparr>kind = SymbolicLink, mode = 511, content = [], link = resolvedSrc,
                                  atime = time_now env, mtime = time_now env\<rparr> \<and>
           (\<forall>p. p \<noteq> dest \<longrightarrow> node fs' p = node fs p) \<and>
           journal fs' = journal fs @ [Unlink dest, Symlink resolvedSrc dest]))"
proof (intro conjI impI)
  from assms show "onLink env destStat src dest opts fs =
       (if isSrcSubdir env resolvedSrc resolvedDest then (Inl (SelfCopy resolvedSrc resolvedDest), fs)
        else if isSrcSubdir env resolvedDest resolvedSrc
        then (Inl (OverwriteConflict resolvedDest resolvedSrc), fs)
        else copyLink env resolvedSrc dest fs)"
    by (simp add: onLink_def Let_def)
next
  show "copyLink env resolvedSrc dest fs =
       fs_bind (unlinkSync dest) (\<lambda>u. symlinkSync env resolvedSrc dest) fs"
    by (simp add: copyLink_def)
next
  assume hp: "has_parent fs dest"
  from readlinkSync_Inr [OF assms(3)] obtain i where i: "node fs dest = Some i" "kind i = SymbolicLink"
    and d: "dest \<noteq> []" by blast
  let ?fs1 = "(issue (Unlink dest) fs)\<lparr>nodes := AList.delete dest (nodes fs)\<rparr>"
  from i have 1: "unlinkSync dest fs = (Inr (), ?fs1)" by (simp add: unlinkSync_file)
  have n: "\<And>q. node ?fs1 q = (if q = dest then None else node fs q)"
    using d by (auto simp: node_def delete_conv')
  have hp1: "has_parent ?fs1 dest"
    using hp d by (simp add: has_parent_def n butlast_neq)
  have 2: "symlinkSync env resolvedSrc dest ?fs1 =
     (Inr (), put dest \<lparr>kind = SymbolicLink, mode = 511, content = [], link = resolvedSrc,
                     atime = time_now env, mtime = time_now env\<rparr> (issue (Symlink resolvedSrc dest) ?fs1))"
    by (rule symlinkSync_fresh [OF _ hp1]) (simp add: n)
  show "\<exists>fs'. copyLink env resolvedSrc dest fs = (Inr (), fs') \<and>
           node fs' dest = Some \<lparr>kind = SymbolicLink, mode = 511, content = [], link = resolvedSrc,
                                  atime = time_now env, mtime = time_now env\<rparr> \<and>
           (\<forall>p. p \<noteq> dest \<longrightarrow> node fs' p = node fs p) \<and>
           journal fs' = journal fs @ [Unlink dest, Symlink resolvedSrc dest]"
    using 1 2 d n by (simp add: copyLink_def fs_bind_def node_put)
qed

lemma writes_at_refl [simp]: "writes_at p fs fs"
  by (simp add: writes_at_def)

lemma writes_at_trans: "writes_at p fs fs1 \<Longrightarrow> writes_at p fs1 fs2 \<Longrightarrow> writes_at p fs fs2"
  unfolding writes_at_def by (metis append.assoc set_append Un_iff)

lemma writes_at_prims:
  "writes_at p fs (snd (unlinkSync p fs))"
  "writes_at p fs (snd (copyFileSync env s p fs))"
  "writes_at p fs (snd (chmodSync env p m fs))"
  "writes_at p fs (snd (utimesMillisSync env p a m' fs))"
  "writes_at p fs (snd (mkdirSync env p fs))"
  "writes_at p fs (snd (symlinkSync env t p fs))"
  by (auto simp: writes_at_def unlinkSync_def copyFileSync_def chmodSync_def utimesMillisSync_def
        mkdirSync_def symlinkSync_def Let_def split: option.splits sum.splits)

lemma writes_at_bind:
  assumes "\<And>fs. writes_at p fs (snd (m fs))" and "\<And>x fs. writes_at p fs (snd (f x fs))"
  shows "writes_at p fs (snd (fs_bind m f fs))"
proof (cases "m fs")
  case (Pair r fs1)
  from assms(1) [of fs] Pair have 1: "writes_at p fs fs1" by simp
  show ?thesis
  proof (cases r)
    case (Inl e)
    with Pair 1 show ?thesis by (simp add: fs_bind_def)
  next
    case (Inr x)
    with Pair have "fs_bind m f fs = f x fs1" by (simp add: fs_bind_def)
    with writes_at_trans [OF 1 assms(2) [of fs1 x]] show ?thesis by simp
  qed
qed

lemma writes_at_return [simp]: "writes_at p fs (snd (fs_return x fs))"
  by (simp add: fs_return_def)

lemma writes_at_throw [simp]: "writes_at p fs (snd (fs_throw e fs))"
  by (simp add: fs_throw_def)

lemma writes_at_setDestMode: "writes_at dest fs (snd (setDestMode env dest m fs))"
  by (simp add: setDestMode_def writes_at_prims)

lemma writes_at_handleTimestamps: "writes_at dest fs (snd (handleTimestamps env m src dest fs))"
  unfolding handleTimestamps_def
  by (rule writes_at_bind)
     (auto simp: makeFileWritable_def setDestTimestamps_def writes_at_setDestMode writes_at_prims
        split: sum.splits)

lemma writes_at_copyFile: "writes_at dest fs (snd (copyFile env srcStat src dest opts fs))"
  unfolding copyFile_def
  by (intro writes_at_bind) (auto simp: writes_at_prims writes_at_handleTimestamps writes_at_setDestMode)

lemma writes_at_onFile: "writes_at dest fs (snd (onFile env srcStat destStat src dest opts fs))"
  unfolding onFile_def mayCopyFile_def
  by (auto intro!: writes_at_bind simp: writes_at_prims writes_at_copyFile)

lemma writes_at_copyLink: "writes_at dest fs (snd (copyLink env t dest fs))"
  unfolding copyLink_def by (intro writes_at_bind) (auto simp: writes_at_prims)

lemma writes_at_onLink: "writes_at dest fs (snd (onLink env destStat src dest opts fs))"
  by (auto simp: onLink_def Let_def writes_at_prims writes_at_copyLink
        split: sum.splits copy_error.splits)

lemma admitted_Nil [simp]: "admitted opts src dest []"
  by (simp add: admitted_def)

lemma writes_within_refl [simp]: "writes_within opts src dest fs fs"
  by (simp add: writes_within_def)

lemma writes_within_trans:
  assumes "writes_within opts src dest fs fs1" and "writes_within opts src dest fs1 fs2"
  shows "writes_within opts src dest fs fs2"
proof -
  from assms(1) obtain ws1 where 1: "journal fs1 = journal fs @ ws1"
    and a1: "\<forall>w \<in> set ws1. \<exists>rel. write_path w = dest @ rel \<and> admitted opts src dest rel"
    unfolding writes_within_def by blast
  from assms(2) obtain ws2 where 2: "journal fs2 = journal fs1 @ ws2"
    and a2: "\<forall>w \<in> set ws2. \<exists>rel. write_path w = dest @ rel \<and> admitted opts src dest rel"
    unfolding writes_within_def by blast
  from 1 2 have "journal fs2 = journal fs @ (ws1 @ ws2)" by simp
  moreover from a1 a2
  have "\<forall>w \<in> set (ws1 @ ws2). \<exists>rel. write_path w = dest @ rel \<and> admitted opts src dest rel"
    by auto
  ultimately show ?thesis unfolding writes_within_def by blast
qed

lemma writes_at_within:
  assumes "writes_at dest fs fs'"
  shows "writes_within opts src dest fs fs'"
proof -
  from assms obtain ws where 1: "journal fs' = journal fs @ ws"
    and a: "\<forall>w \<in> set ws. write_path w = dest"
    unfolding writes_at_def by blast
  have "\<forall>w \<in> set ws. \<exists>rel. write_path w = dest @ rel \<and> admitted opts src dest rel"
  proof
    fix w assume "w \<in> set ws"
    with a have "write_path w = dest @ [] \<and> admitted opts src dest []" by simp
    then show "\<exists>rel. write_path w = dest @ rel \<and> admitted opts src dest rel" by blast
  qed
  with 1 show ?thesis unfolding writes_within_def by blast
qed

lemma admitted_Cons:
  assumes "passes opts (src @ [item]) (dest @ [item])"
    and "admitted opts (src @ [item]) (dest @ [item]) rel"
  shows "admitted opts src dest (item # rel)"
  unfolding admitted_def
proof (intro allI impI)
  fix k
  assume k: "0 < k \<and> k \<le> length (item # rel)"
  then obtain j where j: "k = Suc j" by (cases k) auto
  show "passes opts (src @ take k (item # rel)) (dest @ take k (item # rel))"
  proof (cases j)
    case 0
    with j assms(1) show ?thesis by simp
  next
    case (Suc i)
    with j k assms(2) show ?thesis by (simp add: admitted_def)
  qed
qed

lemma writes_within_item:
  assumes "passes opts (src @ [item]) (dest @ [item])"
    and "writes_within opts (src @ [item]) (dest @ [item]) fs fs'"
  shows "writes_within opts src dest fs fs'"
proof -
  from assms(2) obtain ws where ws: "journal fs' = journal fs @ ws"
    and a: "\<forall>w \<in> set ws. \<exists>rel. write_path w = (dest @ [item]) @ rel \<and>
               admitted opts (src @ [item]) (dest @ [item]) rel"
    by (auto simp: writes_within_def)
  have "\<forall>w \<in> set ws. \<exists>rel. write_path w = dest @ rel \<and> admitted opts src dest rel"
  proof
    fix w assume "w \<in> set ws"
    with a obtain rel where "write_path w = (dest @ [item]) @ rel"
      and "admitted opts (src @ [item]) (dest @ [item]) rel" by blast
    with admitted_Cons [OF assms(1)] have "write_path w = dest @ (item # rel) \<and> admitted opts src dest (item # rel)"
      by simp
    then show "\<exists>rel. write_path w = dest @ rel \<and> admitted opts src dest rel" by blast
  qed
  with ws show ?thesis by (auto simp: writes_within_def)
qed

lemma copyDirItem_filtered:
  "filter' opts = Some f \<Longrightarrow> \<not> f (src @ [item]) (dest @ [item]) \<Longrightarrow>
   copyDirItem rec env item src dest opts fs = Some (Inr (), fs)"
  by (simp add: copyDirItem_def Let_def)

lemma copyDirItem_within:
  assumes "rec_ok rec" and "copyDirItem rec env item src dest opts fs = Some (r, fs')"
  shows "writes_within opts src dest fs fs'"
proof (cases "passes opts (src @ [item]) (dest @ [item])")
  case False
  with assms(2) show ?thesis
    by (auto simp: copyDirItem_def Let_def passes_def split: option.splits)
next
  case True
  show ?thesis
  proof (cases "checkPathsSync env (src @ [item]) (dest @ [item]) opts fs")
    case (Inl e)
    with assms(2) True show ?thesis
      by (auto simp: copyDirItem_def Let_def passes_def split: option.splits)
  next
    case (Inr pr)
    with assms(2) True have "rec (snd pr) (src @ [item]) (dest @ [item]) opts fs = Some (r, fs')"
      by (auto simp: copyDirItem_def Let_def passes_def split: option.splits prod.splits)
    with assms(1) have "writes_within opts (src @ [item]) (dest @ [item]) fs fs'"
      unfolding rec_ok_def by blast
    with True show ?thesis by (rule writes_within_item)
  qed
qed

lemma copyDir_loop_within:
  assumes "rec_ok rec"
  shows "copyDir_loop rec env names src dest opts fs = Some (r, fs') \<Longrightarrow>
         writes_within opts src dest fs fs'"
proof (induction names arbitrary: fs)
  case Nil
  then show ?case by simp
next
  case (Cons name names)
  from Cons.prems obtain r1 fs1 where 1: "copyDirItem rec env name src dest opts fs = Some (r1, fs1)"
    by (auto split: option.splits)
  note w1 = copyDirItem_within [OF assms 1]
  show ?case
  proof (cases r1)
    case (Inl e)
    with Cons.prems 1 w1 show ?thesis by simp
  next
    case (Inr u)
    with Cons.prems 1 have "copyDir_loop rec env names src dest opts fs1 = Some (r, fs')" by simp
    from writes_within_trans [OF w1 Cons.IH [OF this]] show ?thesis .
  qed
qed

lemma copyDir_within:
  assumes "rec_ok rec" and "copyDir rec env src dest opts fs = Some (r, fs')"
  shows "writes_within opts src dest fs fs'"
  using assms(2) copyDir_loop_within [OF assms(1)]
  by (auto simp: copyDir_def split: sum.splits)

lemma mkDirAndCopy_within:
  assumes "rec_ok rec" and "mkDirAndCopy rec env m src dest opts fs = Some (r, fs')"
  shows "writes_within opts src dest fs fs'"
proof (cases "mkdirSync env dest fs")
  case (Pair r1 fs1)
  from writes_at_prims(5) [of dest fs env] Pair have w1: "writes_within opts src dest fs fs1"
    by (simp add: writes_at_within)
  show ?thesis
  proof (cases r1)
    case (Inl e)
    with assms(2) Pair w1 show ?thesis by (simp add: mkDirAndCopy_def)
  next
    case (Inr u)
    with assms(2) Pair obtain r2 fs2 where 2: "copyDir rec env src dest opts fs1 = Some (r2, fs2)"
      by (auto simp: mkDirAndCopy_def split: option.splits)
    note w2 = writes_within_trans [OF w1 copyDir_within [OF assms(1) 2]]
    show ?thesis
    proof (cases r2)
      case (Inl e)
      with assms(2) Pair Inr 2 w2 show ?thesis by (simp add: mkDirAndCopy_def)
    next
      case r2: (Inr u')
      with assms(2) Pair Inr 2 have "(r, fs') = setDestMode env dest m fs2"
        by (simp add: mkDirAndCopy_def)
      with writes_at_setDestMode [of dest fs2 env m] have "writes_within opts src dest fs2 fs'"
        by (metis snd_conv writes_at_within)
      with w2 show ?thesis by (rule writes_within_trans)
    qed
  qed
qed

lemma onDir_within:
  assumes "rec_ok rec" and "onDir rec env srcStat destStat src dest opts fs = Some (r, fs')"
  shows "writes_within opts src dest fs fs'"
  using assms mkDirAndCopy_within copyDir_within
  by (auto simp: onDir_def split: if_splits)

lemma getStats_within: "rec_ok (getStats n env)"
proof (induction n)
  case 0
  show ?case by (simp add: rec_ok_def)
next
  case (Suc n)
  show ?case
    unfolding rec_ok_def
  proof (intro allI impI)
    fix destStat s d opts fs r fs'
    assume a: "getStats (Suc n) env destStat s d opts fs = Some (r, fs')"
    show "writes_within opts s d fs fs'"
    proof (cases "if dereference opts then statSync env s fs else lstatSync s fs")
      case (Inl e)
      with a show ?thesis by simp
    next
      case (Inr srcStat)
      consider (is_dir) "kind srcStat = Directory"
        | (is_file) "kind srcStat \<noteq> Directory" "kind srcStat = RegularFile \<or> kind srcStat = CharacterDevice \<or>
                  kind srcStat = BlockDevice"
        | (is_link) "kind srcStat = SymbolicLink"
        | (is_other) "kind srcStat = Socket \<or> kind srcStat = FIFO \<or> kind srcStat = Unknown"
        by (cases "kind srcStat") auto
      then show ?thesis
      proof cases
        case is_dir
        with a Inr have "onDir (getStats n env) env srcStat destStat s d opts fs = Some (r, fs')" by simp
        from onDir_within [OF Suc this] show ?thesis .
      next
        case is_file
        with a Inr have "(r, fs') = onFile env srcStat destStat s d opts fs" by simp
        with writes_at_onFile [of d fs env srcStat destStat s opts] show ?thesis
          by (metis snd_conv writes_at_within)
      next
        case is_link
        with a Inr have "(r, fs') = onLink env destStat s d opts fs" by simp
        with writes_at_onLink [of d fs env destStat s opts] show ?thesis
          by (metis snd_conv writes_at_within)
      next
        case is_other
        with a Inr show ?thesis by auto
      qed
    qed
  qed
qed

lemma mkdirs_from_journal:
  "\<exists>ws. journal (snd (mkdirs_from env p cs fs)) = journal fs @ ws \<and>
        (\<forall>w \<in> set ws. length (write_path w) \<le> length p + length cs)"
proof (induction cs arbitrary: p fs)
  case Nil
  show ?case by simp
next
  case (Cons c cs)
  show ?case
  proof (cases "node fs (p @ [c])")
    case (Some i)
    show ?thesis
    proof (cases "kind i = Directory")
      case True
      from Cons.IH [of "p @ [c]" fs] Some True show ?thesis by auto
    next
      case False
      with Some show ?thesis by simp
    qed
  next
    case None
    obtain r1 fs1 where m: "mkdirSync env (p @ [c]) fs = (r1, fs1)" by (cases "mkdirSync env (p @ [c]) fs")
    from writes_at_prims(5) [of "p @ [c]" fs env] m
    obtain ws1 where 1: "journal fs1 = journal fs @ ws1" and a1: "\<forall>w \<in> set ws1. write_path w = p @ [c]"
      by (auto simp: writes_at_def)
    show ?thesis
    proof (cases r1)
      case (Inl e)
      with None m 1 a1 show ?thesis by auto
    next
      case (Inr u)
      from Cons.IH [of "p @ [c]" fs1] obtain ws2 where
        2: "journal (snd (mkdirs_from env (p @ [c]) cs fs1)) = journal fs1 @ ws2"
        and a2: "\<forall>w \<in> set ws2. length (write_path w) \<le> length (p @ [c]) + length cs"
        by blast
      from 1 2 have "journal (snd (mkdirs_from env (p @ [c]) cs fs1)) = journal fs @ (ws1 @ ws2)"
        by simp
      moreover from a1 a2
      have "\<forall>w \<in> set (ws1 @ ws2). length (write_path w) \<le> length p + length (c # cs)"
        by auto
      ultimately show ?thesis using None m Inr by auto
    qed
  qed
qed

lemma filter_normalized [simp]: "filter' (normalized opts) = filter' opts"
  by (simp add: normalized_def Let_def)

lemma copySync_object:
  "copySync n env src dest (OptsObject opts) fs =
     (case checkPathsSync env src dest (normalized opts) fs of
        Inl e \<Rightarrow> Some (Inl e, fs)
      | Inr (srcStat, destStat) \<Rightarrow>
          (case checkParentPathsSync env src srcStat dest fs of
             Inl e \<Rightarrow> Some (Inl e, fs)
           | Inr u \<Rightarrow>
               if \<not> passes opts src dest then Some (Inr (), fs)
               else (case (if \<not> existsSync env (butlast dest) fs then mkdirsSync env (butlast dest) fs
                           else (Inr (), fs)) of
                       (Inl e, fs') \<Rightarrow> Some (Inl e, fs')
                     | (Inr u, fs') \<Rightarrow> getStats n env destStat src dest (normalized opts) fs')))"
  by (cases "filter' opts")
     (simp_all add: copySync_def normalized_def Let_def passes_def
        cong: sum.case_cong prod.case_cong if_cong)

lemma copySync_filtered_root:
  assumes "filter' opts = Some f" and "\<not> f src dest"
  shows "\<exists>r. copySync n env src dest (OptsObject opts) fs = Some (r, fs)"
  using assms
  by (auto simp: copySync_object passes_def split: sum.splits prod.splits)

lemma copySync_journal:
  assumes "copySync n env src dest (OptsObject opts) fs = Some (r, fs')"
  shows "\<exists>ws0 ws1. journal fs' = journal fs @ ws0 @ ws1 \<and>
           (\<forall>w \<in> set ws0. length (write_path w) \<le> length (butlast dest)) \<and>
           (\<forall>w \<in> set ws1. \<exists>rel. write_path w = dest @ rel \<and> admitted (normalized opts) src dest rel)"
proof -
  have triv: "fs' = fs \<Longrightarrow> ?thesis" by auto
  show ?thesis
  proof (cases "checkPathsSync env src dest (normalized opts) fs")
    case (Inl e)
    with assms triv show ?thesis by (simp add: copySync_object)
  next
    case (Inr pr)
    obtain srcStat destStat where pr: "pr = (srcStat, destStat)" by (cases pr)
    show ?thesis
    proof (cases "checkParentPathsSync env src srcStat dest fs")
      case (Inl e)
      with assms triv Inr pr show ?thesis by (simp add: copySync_object)
    next
      case u: (Inr u)
      show ?thesis
      proof (cases "passes opts src dest")
        case False
        with assms triv Inr pr u show ?thesis by (simp add: copySync_object)
      next
        case True
        obtain r1 fs1 where m: "(if \<not> existsSync env (butlast dest) fs then mkdirsSync env (butlast dest) fs
                           else (Inr (), fs)) = (r1, fs1)"
          by (cases "if \<not> existsSync env (butlast dest) fs then mkdirsSync env (butlast dest) fs
                           else (Inr (), fs)")
        have "\<exists>ws0. journal fs1 = journal fs @ ws0 \<and>
               (\<forall>w \<in> set ws0. length (write_path w) \<le> length (butlast dest))"
        proof (cases "existsSync env (butlast dest) fs")
          case True
          with m show ?thesis by simp
        next
          case False
          with m have "fs1 = snd (mkdirs_from env [] (butlast dest) fs)" by (simp add: mkdirsSync_def)
          with mkdirs_from_journal [of env "[]" "butlast dest" fs] show ?thesis by simp
        qed
        then obtain ws0 where 0: "journal fs1 = journal fs @ ws0"
          and a0: "\<forall>w \<in> set ws0. length (write_path w) \<le> length (butlast dest)" by blast
        show ?thesis
        proof (cases r1)
          case (Inl e)
          with assms Inr pr u True m have "fs' = fs1" by (simp add: copySync_object)
          with 0 a0 show ?thesis by (intro exI [of _ ws0] exI [of _ "[]"]) simp
        next
          case r: (Inr u')
          with assms Inr pr u True m
          have "getStats n env destStat src dest (normalized opts) fs1 = Some (r, fs')"
            by (simp add: copySync_object)
          with getStats_within [of n env] have "writes_within (normalized opts) src dest fs1 fs'"
            unfolding rec_ok_def by blast
          then obtain ws1 where 1: "journal fs' = journal fs1 @ ws1"
            and a1: "\<forall>w \<in> set ws1. \<exists>rel. write_path w = dest @ rel \<and> admitted (normalized opts) src dest rel"
            unfolding writes_within_def by blast
          from 0 1 a0 a1 show ?thesis by (intro exI [of _ ws0] exI [of _ ws1]) simp
        qed
      qed
    qed
  qed
qed

lemma admitted_excludes:
  assumes "filter' opts = Some f" and "rel \<noteq> []" and "\<not> f (src @ rel) (dest @ rel)"
    and "admitted opts src dest rel'"
  shows "rel' \<noteq> rel @ x"
proof
  assume "rel' = rel @ x"
  with assms(4) assms(2) have "passes opts (src @ take (length rel) (rel @ x)) (dest @ take (length rel) (rel @ x))"
    unfolding admitted_def by (metis length_append le_add1 length_greater_0_conv)
  with assms(1,3) show False by (simp add: passes_def)
qed

text \<open>
  C8. With a filter configured: a directory entry for which the filter returns false is
  left at once, with the file system unchanged and without a recursive call (the result
  does not depend on \<open>rec\<close>); a root for which it returns false leaves the file system
  unchanged; and in a whole copy no write is issued on the destination of a rejected
  entry or on any path below it, at any depth.
\<close>

theorem filtered_entries_are_skipped:
  assumes "filter' opts = Some f"
  shows
    "(\<not> f (src @ [item]) (dest @ [item]) \<longrightarrow>
        copyDirItem rec env item src dest opts fs = Some (Inr (), fs)) \<and>
     (\<not> f src dest \<longrightarrow> (\<exists>r. copySync n env src dest (OptsObject opts) fs = Some (r, fs))) \<and>
     (\<forall>r fs' rel.
        copySync n env src dest (OptsObject opts) fs = Some (r, fs') \<and> rel \<noteq> [] \<and>
        \<not> f (src @ rel) (dest @ rel) \<longrightarrow>
        take (length (journal fs)) (journal fs') = journal fs \<and>
        (\<forall>w \<in> set (drop (length (journal fs)) (journal fs')). \<forall>x. write_path w \<noteq> dest @ rel @ x))"
proof (intro conjI impI allI)
  assume "\<not> f (src @ [item]) (dest @ [item])"
  with assms show "copyDirItem rec env item src dest opts fs = Some (Inr (), fs)"
    by (rule copyDirItem_filtered)
next
  assume "\<not> f src dest"
  with assms show "\<exists>r. copySync n env src dest (OptsObject opts) fs = Some (r, fs)"
    by (rule copySync_filtered_root)
next
  fix r fs' rel
  assume a: "copySync n env src dest (OptsObject opts) fs = Some (r, fs') \<and> rel \<noteq> [] \<and>
        \<not> f (src @ rel) (dest @ rel)"
  from copySync_journal [of n env src dest opts fs r fs'] a
  obtain ws0 ws1 where j: "journal fs' = journal fs @ ws0 @ ws1"
    and a0: "\<forall>w \<in> set ws0. length (write_path w) \<le> length (butlast dest)"
    and a1: "\<forall>w \<in> set ws1. \<exists>rel. write_path w = dest @ rel \<and> admitted (normalized opts) src dest rel"
    by blast
  from j show "take (length (journal fs)) (journal fs') = journal fs" by simp
  show "\<forall>w \<in> set (drop (length (journal fs)) (journal fs')). \<forall>x. write_path w \<noteq> dest @ rel @ x"
  proof (intro ballI allI)
    fix w x
    assume "w \<in> set (drop (length (journal fs)) (journal fs'))"
    with j have "w \<in> set ws0 \<or> w \<in> set ws1" by auto
    then show "write_path w \<noteq> dest @ rel @ x"
    proof
      assume "w \<in> set ws0"
      with a0 have "length (write_path w) \<le> length (butlast dest)" by blast
      moreover from a have "length (butlast dest) < length (dest @ rel @ x)" by (cases rel) auto
      ultimately show ?thesis by auto
    next
      assume "w \<in> set ws1"
      with a1 obtain rel' where r': "write_path w = dest @ rel'"
        and ad: "admitted (normalized opts) src dest rel'" by blast
      from assms have "filter' (normalized opts) = Some f" by simp
      from admitted_excludes [OF this _ _ ad, of rel x] a have "rel' \<noteq> rel @ x" by blast
      with r' show ?thesis by simp
    qed
  qed
qed

lemmas example_defs = example_env_def example_fs_def a_f1_def b_f1_def a_l_def b_l_def a_dir_def
  not_sub_def no_opts_def

lemmas copy_defs = node_def has_parent_def issue_def put_def lstatSync_def statSync_def
  existsSync_def readlinkSync_def unlinkSync_def copyFileSync_def chmodSync_def mkdirSync_def
  symlinkSync_def opendirSync_def utimesMillisSync_def mkdirsSync_def fileIsNotWritable_def
  setDestMode_def makeFileWritable_def setDestTimestamps_def handleTimestamps_def copyFile_def
  mayCopyFile_def onFile_def copyLink_def onLink_def copyDirItem_def copyDir_def
  mkDirAndCopy_def onDir_def copySync_def fs_bind_def fs_return_def fs_throw_def root_def Let_def

theorem existing_destination_policy_witness:
  "onFile example_env a_f1 (Some b_f1) [''a'', ''f1''] [''b'', ''f1'']
     (no_opts\<lparr>overwrite := Some False, errorOnExist := True\<rparr>) example_fs
     = (Inl (AlreadyExists [''b'', ''f1'']), example_fs) \<and>
   onFile example_env a_f1 (Some b_f1) [''a'', ''f1''] [''b'', ''f1'']
     (no_opts\<lparr>overwrite := Some False\<rparr>) example_fs = (Inr (), example_fs) \<and>
   (\<exists>fs'. onFile example_env a_f1 (Some b_f1) [''a'', ''f1''] [''b'', ''f1'']
            (no_opts\<lparr>overwrite := Some True\<rparr>) example_fs = (Inr (), fs') \<and>
      node fs' [''b'', ''f1''] =
        Some \<lparr>kind = RegularFile, mode = 420, content = [104, 105], link = [],
              atime = 1000, mtime = 1000\<rparr> \<and>
      journal fs' =
        [Unlink [''b'', ''f1''], CopyFile [''a'', ''f1''] [''b'', ''f1''], Chmod [''b'', ''f1''] 420])"
proof -
  note T = existing_destination_policy [of "Some b_f1" b_f1 _ example_env a_f1
      "[''a'', ''f1'']" "[''b'', ''f1'']" example_fs, OF refl]
  have A: "onFile example_env a_f1 (Some b_f1) [''a'', ''f1''] [''b'', ''f1'']
     (no_opts\<lparr>overwrite := Some False, errorOnExist := True\<rparr>) example_fs
     = (Inl (AlreadyExists [''b'', ''f1'']), example_fs)"
    by (rule T [THEN conjunct1, rule_format]) (simp add: no_opts_def)
  have B: "onFile example_env a_f1 (Some b_f1) [''a'', ''f1''] [''b'', ''f1'']
     (no_opts\<lparr>overwrite := Some False\<rparr>) example_fs = (Inr (), example_fs)"
    by (rule T [THEN conjunct2, THEN conjunct1, rule_format]) (simp add: no_opts_def)
  have h: "overwrite (no_opts\<lparr>overwrite := Some True\<rparr>) = Some True \<and>
      node example_fs [''a'', ''f1''] = Some a_f1 \<and>
      (kind a_f1 = RegularFile \<or> kind a_f1 = CharacterDevice \<or> kind a_f1 = BlockDevice) \<and>
      node example_fs [''b'', ''f1''] = Some b_f1 \<and> kind b_f1 \<noteq> Directory \<and>
      has_parent example_fs [''b'', ''f1''] \<and> [''a'', ''f1''] \<noteq> [''b'', ''f1'']"
    by (simp add: example_defs node_def has_parent_def)
  from T [where opts = "no_opts\<lparr>overwrite := Some True\<rparr>", THEN conjunct2, THEN conjunct2,
      THEN conjunct2, rule_format, OF h]
  have C: "\<exists>fs'. onFile example_env a_f1 (Some b_f1) [''a'', ''f1''] [''b'', ''f1'']
            (no_opts\<lparr>overwrite := Some True\<rparr>) example_fs = (Inr (), fs') \<and>
      node fs' [''b'', ''f1''] =
        Some \<lparr>kind = RegularFile, mode = 420, content = [104, 105], link = [],
              atime = 1000, mtime = 1000\<rparr> \<and>
      journal fs' =
        [Unlink [''b'', ''f1''], CopyFile [''a'', ''f1''] [''b'', ''f1''], Chmod [''b'', ''f1''] 420]"
    by (auto simp: example_defs)
  from A B C show ?thesis by blast
qed

theorem existing_link_policy_witness:
  "readlinkSync [''a'', ''l''] example_fs = Inr ''/x/y'' \<and>
   readlinkSync [''b'', ''l''] example_fs = Inr ''/z'' \<and>
   has_parent example_fs [''b'', ''l''] \<and>
   (\<exists>fs'. onLink example_env (Some b_l) [''a'', ''l''] [''b'', ''l''] no_opts example_fs = (Inr (), fs') \<and>
      node fs' [''b'', ''l''] =
        Some \<lparr>kind = SymbolicLink, mode = 511, content = [], link = ''/x/y'',
              atime = 1000, mtime = 1000\<rparr> \<and>
      journal fs' = [Unlink [''b'', ''l''], Symlink ''/x/y'' [''b'', ''l'']])"
proof -
  have 1: "readlinkSync [''a'', ''l''] example_fs = Inr ''/x/y''"
    by (simp add: example_defs readlinkSync_def node_def)
  have 2: "readlinkSync [''b'', ''l''] example_fs = Inr ''/z''"
    by (simp add: example_defs readlinkSync_def node_def)
  have 3: "has_parent example_fs [''b'', ''l'']"
    by (simp add: example_defs has_parent_def node_def)
  have 4: "''/x/y'' = (if dereference no_opts then resolve_cwd example_env ''/x/y'' else ''/x/y'')"
    "''/z'' = (if dereference no_opts then resolve_cwd example_env ''/z'' else ''/z'')"
    by (simp_all add: no_opts_def)
  note T = existing_link_policy [OF 1 refl 2 4, of b_l]
  have s: "\<not> isSrcSubdir example_env ''/x/y'' ''/z''" "\<not> isSrcSubdir example_env ''/z'' ''/x/y''"
    by (simp_all add: example_env_def)
  from T [THEN conjunct1] s
  have "onLink example_env (Some b_l) [''a'', ''l''] [''b'', ''l''] no_opts example_fs =
     copyLink example_env ''/x/y'' [''b'', ''l''] example_fs" by simp
  with T [THEN conjunct2, THEN conjunct2, rule_format, OF 3]
  have "\<exists>fs'. onLink example_env (Some b_l) [''a'', ''l''] [''b'', ''l''] no_opts example_fs = (Inr (), fs') \<and>
      node fs' [''b'', ''l''] =
        Some \<lparr>kind = SymbolicLink, mode = 511, content = [], link = ''/x/y'',
              atime = 1000, mtime = 1000\<rparr> \<and>
      journal fs' = [Unlink [''b'', ''l''], Symlink ''/x/y'' [''b'', ''l'']]"
    by (auto simp: example_defs)
  with 1 2 3 show ?thesis by blast
qed

lemma example_copy:
  "\<exists>fs'. copySync 3 example_env [''a''] [''b''] (OptsObject (no_opts\<lparr>filter' := Some not_sub\<rparr>)) example_fs
      = Some (Inr (), fs') \<and>
     journal fs' =
       [Unlink [''b'', ''f1''], CopyFile [''a'', ''f1''] [''b'', ''f1''], Chmod [''b'', ''f1''] 420,
        Unlink [''b'', ''l''], Symlink ''/x/y'' [''b'', ''l'']]"
  by (simp add: copy_defs example_defs numeral_3_eq_3 realpath_no_link)

theorem filtered_entries_are_skipped_witness:
  "filter' (no_opts\<lparr>filter' := Some not_sub\<rparr>) = Some not_sub \<and>
   copyDirItem (getStats 2 example_env) example_env ''sub'' [''a''] [''b'']
     (no_opts\<lparr>filter' := Some not_sub\<rparr>) example_fs = Some (Inr (), example_fs) \<and>
   (\<exists>r. copySync 3 example_env [''a'', ''sub''] [''b'', ''sub'']
          (OptsObject (no_opts\<lparr>filter' := Some not_sub\<rparr>)) example_fs = Some (r, example_fs)) \<and>
   (\<exists>fs'. copySync 3 example_env [''a''] [''b''] (OptsObject (no_opts\<lparr>filter' := Some not_sub\<rparr>))
            example_fs = Some (Inr (), fs') \<and>
      journal fs' =
        [Unlink [''b'', ''f1''], CopyFile [''a'', ''f1''] [''b'', ''f1''], Chmod [''b'', ''f1''] 420,
         Unlink [''b'', ''l''], Symlink ''/x/y'' [''b'', ''l'']] \<and>
      Mkdir [''b'', ''sub''] \<notin> set (journal fs') \<and>
      CopyFile [''a'', ''sub'', ''f2''] [''b'', ''sub'', ''f2''] \<notin> set (journal fs'))"
proof -
  let ?opts = "no_opts\<lparr>filter' := Some not_sub\<rparr>"
  have f: "filter' ?opts = Some not_sub" by simp
  have n1: "\<not> not_sub ([''a''] @ [''sub'']) ([''b''] @ [''sub''])" by (simp add: not_sub_def)
  have n2: "\<not> not_sub [''a'', ''sub''] [''b'', ''sub'']" by (simp add: not_sub_def)
  from filtered_entries_are_skipped [OF f, THEN conjunct1, rule_format, OF n1]
  have A: "copyDirItem (getStats 2 example_env) example_env ''sub'' [''a''] [''b''] ?opts example_fs
      = Some (Inr (), example_fs)" .
  from filtered_entries_are_skipped [OF f, THEN conjunct2, THEN conjunct1, rule_format, OF n2]
  have B: "\<exists>r. copySync 3 example_env [''a'', ''sub''] [''b'', ''sub''] (OptsObject ?opts) example_fs
      = Some (r, example_fs)" .
  from example_copy obtain fs' where
    c: "copySync 3 example_env [''a''] [''b''] (OptsObject ?opts) example_fs = Some (Inr (), fs')"
    and j: "journal fs' =
       [Unlink [''b'', ''f1''], CopyFile [''a'', ''f1''] [''b'', ''f1''], Chmod [''b'', ''f1''] 420,
        Unlink [''b'', ''l''], Symlink ''/x/y'' [''b'', ''l'']]"
    by blast
  from filtered_entries_are_skipped [OF f, THEN conjunct2, THEN conjunct2, rule_format,
      of 3 example_env "[''a'']" "[''b'']" example_fs "Inr ()" fs' "[''sub'']"] c n1
  have C: "\<forall>w \<in> set (drop (length (journal example_fs)) (journal fs')). \<forall>x. write_path w \<noteq> [''b''] @ [''sub''] @ x"
    by simp
  have e: "journal example_fs = []" by (simp add: example_fs_def)
  have "Mkdir [''b'', ''sub''] \<notin> set (journal fs')"
  proof
    assume "Mkdir [''b'', ''sub''] \<in> set (journal fs')"
    with C e have "\<forall>x. write_path (Mkdir [''b'', ''sub'']) \<noteq> [''b''] @ [''sub''] @ x" by auto
    then have "write_path (Mkdir [''b'', ''sub'']) \<noteq> [''b''] @ [''sub''] @ []" by (rule allE)
    then show False by simp
  qed
  moreover have "CopyFile [''a'', ''sub'', ''f2''] [''b'', ''sub'', ''f2''] \<notin> set (journal fs')"
  proof
    assume "CopyFile [''a'', ''sub'', ''f2''] [''b'', ''sub'', ''f2''] \<in> set (journal fs')"
    with C e have "\<forall>x. write_path (CopyFile [''a'', ''sub'', ''f2''] [''b'', ''sub'', ''f2''])
        \<noteq> [''b''] @ [''sub''] @ x" by auto
    then have "write_path (CopyFile [''a'', ''sub'', ''f2''] [''b'', ''sub'', ''f2''])
        \<noteq> [''b''] @ [''sub''] @ [''f2'']" by (rule allE)
    then show False by simp
  qed
  ultimately show ?thesis using f A B c j by blast
qed

end
